theory Spec2Isabelle
  imports Main "HOL-Library.Multiset"
begin

section \<open>JavaScript strings\<close>

text \<open>
  A JavaScript string is a sequence of UTF-16 code units. The model uses \<open>string\<close>
  (a list of 8-bit characters): every character stands for one code unit in the range
  0 to 255. Text with code units above 255 is outside the model.
\<close>

text \<open>\<open>String.prototype.split\<close> with a one-character separator: the empty string
  splits into one empty segment, and \<open>n\<close> separators give \<open>n + 1\<close> segments.\<close>

fun split_on :: "char \<Rightarrow> string \<Rightarrow> string list" where
  "split_on c [] = [[]]"
| "split_on c (x # xs) =
     (if x = c then [] # split_on c xs
      else (case split_on c xs of
              [] \<Rightarrow> [[x]]
            | w # ws \<Rightarrow> (x # w) # ws))"

text \<open>\<open>Array.prototype.join\<close> with a separator string.\<close>

fun join :: "string \<Rightarrow> string list \<Rightarrow> string" where
  "join sep [] = []"
| "join sep [x] = x"
| "join sep (x # y # ys) = x @ sep @ join sep (y # ys)"

text \<open>\<open>String.prototype.startsWith\<close>.\<close>

definition startsWith :: "string \<Rightarrow> string \<Rightarrow> bool" where
  "startsWith s p = (take (length p) s = p)"

text \<open>
  \<open>String.prototype.toLowerCase\<close> on code units below 256: the letters A to Z and
  the Latin-1 capitals 192 to 222 (without the multiplication sign 215) move up by 32.
\<close>

definition toLowerCase_char :: "char \<Rightarrow> char" where
  "toLowerCase_char c =
     (let n = (of_char c :: nat) in
      if (65 \<le> n \<and> n \<le> 90) \<or> (192 \<le> n \<and> n \<le> 222 \<and> n \<noteq> 215)
      then char_of (n + 32) else c)"

definition toLowerCase :: "string \<Rightarrow> string" where
  "toLowerCase s = map toLowerCase_char s"

text \<open>
  White space and line terminators of \<open>String.prototype.trim\<close> and of the regular
  expression class \<open>\s\<close>, among code units below 256: tab, line feed, vertical tab,
  form feed, carriage return, space and the no-break space 160.
\<close>

definition isSpace :: "char \<Rightarrow> bool" where
  "isSpace c = (let n = (of_char c :: nat) in (9 \<le> n \<and> n \<le> 13) \<or> n = 32 \<or> n = 160)"

definition trimStart :: "string \<Rightarrow> string" where
  "trimStart s = dropWhile isSpace s"

definition trimEnd :: "string \<Rightarrow> string" where
  "trimEnd s = rev (dropWhile isSpace (rev s))"

definition trim :: "string \<Rightarrow> string" where
  "trim s = trimEnd (trimStart s)"

section \<open>Changed files and the file filter\<close>

text \<open>
  \<open>PRFile\<close> (constants.ts): the fields the review reads and writes. \<open>patch\<close> is
  absent for a file without a textual diff; the contents are \<open>null\<close> until
  \<open>preprocessFile\<close> has fetched them, and stay \<open>null\<close> when there is nothing to fetch.
\<close>

record PRFile =
  filename :: string
  patch :: "string option"
  old_contents :: "string option"
  current_contents :: "string option"
  patchTokenLength :: nat

definition extensionsToIgnore :: "string list" where
  "extensionsToIgnore =
     [''pdf'', ''png'', ''jpg'', ''jpeg'', ''gif'', ''mp4'', ''mp3'', ''md'', ''json'',
      ''env'', ''toml'', ''svg'']"

definition filesToIgnore :: "string list" where
  "filesToIgnore =
     [''package-lock.json'', ''yarn.lock'', ''.gitignore'', ''package.json'',
      ''tsconfig.json'', ''poetry.lock'', ''readme.md'']"

text \<open>
  \<open>filterFile\<close> (review-agent.ts), on the file's name. \<open>pop()\<close> of a split is its
  last segment (a split is never empty); an empty segment is falsy, so it is never
  looked up in a set.
\<close>

definition filterFile :: "string \<Rightarrow> bool" where
  "filterFile name =
     (let filename = last (split_on CHR ''/'' (toLowerCase name)) in
      if filename \<noteq> [] \<and> filename \<in> set filesToIgnore then False
      else
        let splitFilename = split_on CHR ''.'' (toLowerCase name) in
        if length splitFilename \<le> 1 then False
        else
          let extension = toLowerCase (last splitFilename) in
          if extension \<noteq> [] \<and> extension \<in> set extensionsToIgnore then False
          else True)"

text \<open>
  The three exclusion rules in the words of the specification: the part of the lowercased
  name after its last slash is on the ignore list; the lowercased name has no dot; the
  part of the lowercased name after its last dot is an ignored extension.
\<close>

definition afterLast :: "char \<Rightarrow> string \<Rightarrow> string" where
  "afterLast c s = rev (takeWhile (\<lambda>x. x \<noteq> c) (rev s))"




section \<open>Prompts and the token budget\<close>

text \<open>\<open>ChatCompletionMessageParam\<close>: one role-tagged segment of a conversation.\<close>

record message =
  role :: string
  content :: string

text \<open>
  \<open>constructPrompt\<close> (prompts.ts): the patches of the files, joined by line feeds,
  wrapped by the conversation builder.
\<close>

definition constructPrompt ::
  "PRFile list \<Rightarrow> (PRFile \<Rightarrow> string) \<Rightarrow> (string \<Rightarrow> message list) \<Rightarrow> message list" where
  "constructPrompt files patchBuilder convoBuilder =
     (let patches = map patchBuilder files;
          diff = join ''\<newline>'' patches
      in convoBuilder diff)"

text \<open>
  \<open>buildPatchPrompt\<close> (prompts.ts). The two strategies live in context/review.ts,
  which is not among the sources: they are the parameters \<open>rawPatchStrategy\<close> and
  \<open>smarterContextPatchStrategy\<close>.
\<close>

definition buildPatchPrompt ::
  "(PRFile \<Rightarrow> string) \<Rightarrow> (PRFile \<Rightarrow> string) \<Rightarrow> PRFile \<Rightarrow> string" where
  "buildPatchPrompt rawPatchStrategy smarterContextPatchStrategy file =
     (if old_contents file = None then rawPatchStrategy file
      else smarterContextPatchStrategy file)"

definition ModelsToTokenLimits :: "(string \<times> nat) list" where
  "ModelsToTokenLimits =
     [(''llama-3.3-70b-versatile'', 128000),
      (''gemma-7b-it'', 32768),
      (''llama3-70b-8192'', 8192)]"

definition GROQ_MODEL :: string where
  "GROQ_MODEL = ''llama-3.3-70b-versatile''"

text \<open>
  \<open>isConversationWithinLimit\<close> (prompts.ts). The tokenizer of the package
  gpt-tokenizer is the parameter \<open>encodeChat\<close>, which gives the number of tokens of
  a conversation. A model that is not in the table has the limit \<open>undefined\<close>, and a
  comparison with \<open>undefined\<close> is false.
\<close>

definition isConversationWithinLimit ::
  "(message list \<Rightarrow> nat) \<Rightarrow> message list \<Rightarrow> string \<Rightarrow> bool" where
  "isConversationWithinLimit encodeChat convo model =
     (let convoTokens = encodeChat convo
      in case map_of ModelsToTokenLimits model of
           None \<Rightarrow> False
         | Some limit \<Rightarrow> convoTokens < limit)"

text \<open>
  The test every step of the batch planner makes: the conversation of a list of files,
  against the limit of the default model.
\<close>

definition withinLimit ::
  "(message list \<Rightarrow> nat) \<Rightarrow> (PRFile \<Rightarrow> string) \<Rightarrow> (string \<Rightarrow> message list) \<Rightarrow>
   PRFile list \<Rightarrow> bool" where
  "withinLimit encodeChat patchBuilder convoBuilder files =
     isConversationWithinLimit encodeChat
       (constructPrompt files patchBuilder convoBuilder) GROQ_MODEL"

section \<open>The batch planner\<close>

text \<open>
  A JavaScript \<open>Map\<close> with string keys, as the list of its entries in insertion
  order. \<open>Map.prototype.set\<close> replaces the value of a key that is present and keeps
  the key's position; a new key goes to the end.
\<close>

type_synonym 'v js_map = "(string \<times> 'v) list"

fun map_set :: "string \<Rightarrow> 'v \<Rightarrow> 'v js_map \<Rightarrow> 'v js_map" where
  "map_set k v [] = [(k, v)]"
| "map_set k v ((k', v') # m) =
     (if k' = k then (k, v) # m else (k', v') # map_set k v m)"

definition map_has :: "'v js_map \<Rightarrow> string \<Rightarrow> bool" where
  "map_has m k = (k \<in> fst ` set m)"

definition map_get :: "'v js_map \<Rightarrow> string \<Rightarrow> 'v option" where
  "map_get m k = map_of m k"

definition map_values :: "'v js_map \<Rightarrow> 'v list" where
  "map_values m = map snd m"

text \<open>
  \<open>groupFilesByExtension\<close> (review-agent.ts). The extension is the lowercased last
  segment of the name; a file whose extension is the empty string is put in no group.
  Pushing onto the array stored under a key changes that entry in place.
\<close>

definition groupFilesByExtension :: "PRFile list \<Rightarrow> PRFile list js_map" where
  "groupFilesByExtension files =
     foldl (\<lambda>filesByExtension file.
        let extension = toLowerCase (last (split_on CHR ''.'' (PRFile.filename file))) in
        if extension \<noteq> [] then
          let withKey = (if \<not> map_has filesByExtension extension
                         then map_set extension [] filesByExtension
                         else filesByExtension)
          in (case map_get withKey extension of
                None \<Rightarrow> withKey
              | Some stored \<Rightarrow> map_set extension (stored @ [file]) withKey)
        else filesByExtension) [] files"

text \<open>
  The loop over the sorted files of an extension group that is over the limit: the
  state is the list of closed groups and the current group.
\<close>

definition packStep ::
  "(PRFile list \<Rightarrow> bool) \<Rightarrow> PRFile list list \<times> PRFile list \<Rightarrow> PRFile \<Rightarrow>
   PRFile list list \<times> PRFile list" where
  "packStep fits state file =
     (case state of (processGroups, currentGroup) \<Rightarrow>
        if fits (currentGroup @ [file]) then (processGroups, currentGroup @ [file])
        else (processGroups @ [currentGroup], [file]))"

text \<open>
  One pass of the loop over the extension groups: the groups it adds to
  \<open>processGroups\<close>. \<open>Array.prototype.sort\<close> is stable.
\<close>

definition processExtensionGroup ::
  "(PRFile list \<Rightarrow> bool) \<Rightarrow> PRFile list list \<Rightarrow> PRFile list \<Rightarrow> PRFile list list" where
  "processExtensionGroup fits processGroups filesForExt =
     (if fits filesForExt then processGroups @ [filesForExt]
      else
        (case foldl (packStep fits) (processGroups, []) (sort_key patchTokenLength filesForExt) of
           (processGroups', currentGroup) \<Rightarrow>
             if length currentGroup > 0 then processGroups' @ [currentGroup]
             else processGroups'))"

text \<open>\<open>processWithinLimitFiles\<close> (review-agent.ts).\<close>

definition processWithinLimitFiles ::
  "(message list \<Rightarrow> nat) \<Rightarrow> PRFile list \<Rightarrow> (PRFile \<Rightarrow> string) \<Rightarrow> (string \<Rightarrow> message list) \<Rightarrow>
   PRFile list list" where
  "processWithinLimitFiles encodeChat files patchBuilder convoBuilder =
     (let fits = withinLimit encodeChat patchBuilder convoBuilder;
          convoWithinModelLimit = fits files
      in if \<not> convoWithinModelLimit then
           foldl (processExtensionGroup fits) []
             (map_values (groupFilesByExtension files))
         else [files])"

text \<open>
  \<open>stripRemovedLines\<close> (review-agent.ts). The template literal turns an absent
  patch into the text \<open>undefined\<close>.
\<close>

definition stripRemovedLines :: "PRFile \<Rightarrow> PRFile" where
  "stripRemovedLines originalFile =
     (let originalPatch = (case patch originalFile of None \<Rightarrow> ''undefined'' | Some p \<Rightarrow> p);
          strippedPatch =
            join ''\<newline>'' (filter (\<lambda>line. \<not> startsWith line ''-'')
              (split_on CHR ''\<newline>'' originalPatch))
      in originalFile\<lparr>patch := Some strippedPatch\<rparr>)"

text \<open>\<open>processOutsideLimitFiles\<close> (review-agent.ts).\<close>

definition processOutsideLimitFiles ::
  "(message list \<Rightarrow> nat) \<Rightarrow> PRFile list \<Rightarrow> (PRFile \<Rightarrow> string) \<Rightarrow> (string \<Rightarrow> message list) \<Rightarrow>
   PRFile list list" where
  "processOutsideLimitFiles encodeChat files patchBuilder convoBuilder =
     (if length files = 0 then []
      else
        let fits = withinLimit encodeChat patchBuilder convoBuilder;
            files' = map stripRemovedLines files;
            convoWithinModelLimit = fits files'
        in if convoWithinModelLimit then [files']
           else
             let withinLimits = filter (\<lambda>file. fits [file]) files'
             in processWithinLimitFiles encodeChat withinLimits patchBuilder convoBuilder)"

text \<open>
  The local list \<open>exceedingLimits\<close> of \<open>processOutsideLimitFiles\<close>: the files
  that are over the limit even alone and without their removed lines. The function
  only logs that the list is not empty; no group is made for these files.
\<close>

definition exceedingLimits ::
  "(message list \<Rightarrow> nat) \<Rightarrow> PRFile list \<Rightarrow> (PRFile \<Rightarrow> string) \<Rightarrow> (string \<Rightarrow> message list) \<Rightarrow>
   PRFile list" where
  "exceedingLimits encodeChat files patchBuilder convoBuilder =
     (if length files = 0 then []
      else
        let fits = withinLimit encodeChat patchBuilder convoBuilder;
            files' = map stripRemovedLines files
        in if fits files' then []
           else filter (\<lambda>file. \<not> fits [file]) files')"

section \<open>Errors and numbers\<close>

text \<open>What a JavaScript function throws, as a value.\<close>

datatype error =
    TypeError string
  | SyntaxError string
  | Error string



definition digitChar :: "nat \<Rightarrow> char" where
  "digitChar d = char_of (48 + d)"



text \<open>A natural number in a template literal: its decimal digits.\<close>

function showNat :: "nat \<Rightarrow> string" where
  "showNat n = (if n < 10 then [digitChar n] else showNat (n div 10) @ [digitChar (n mod 10)])"
  by pat_completeness auto
termination
  by (relation "measure id") auto

declare showNat.simps [simp del]

definition showInt :: "int \<Rightarrow> string" where
  "showInt i = (if i < 0 then CHR ''-'' # showNat (nat (- i)) else showNat (nat i))"

section \<open>The issue link\<close>

text \<open>
  The pattern \<open>/^[a-zA-Z0-9-_.]+$/\<close>: one or more characters, each a letter, a digit,
  a hyphen, an underscore or a dot.
\<close>

definition isAlnum :: "char \<Rightarrow> bool" where
  "isAlnum c =
     (let n = (of_char c :: nat) in
      (48 \<le> n \<and> n \<le> 57) \<or> (65 \<le> n \<and> n \<le> 90) \<or> (97 \<le> n \<and> n \<le> 122))"

definition isRepoChar :: "char \<Rightarrow> bool" where
  "isRepoChar c = (isAlnum c \<or> c = CHR ''-'' \<or> c = CHR ''_'' \<or> c = CHR ''.'')"

definition matchesRepoPattern :: "string \<Rightarrow> bool" where
  "matchesRepoPattern s = (s \<noteq> [] \<and> list_all isRepoChar s)"

text \<open>
  \<open>encodeURIComponent\<close> on code units below 256: letters, digits and
  \<open>- _ . ! ~ * ' ( )\<close> stay; every other character becomes the percent-escapes of its
  UTF-8 bytes, one byte below 128 and two bytes from 128 on.
\<close>

definition isUnreserved :: "char \<Rightarrow> bool" where
  "isUnreserved c = (isAlnum c \<or> c \<in> set ''-_.!~*'' \<or> c = CHR 0x27 \<or> c \<in> set ''()'')"

definition hexDigit :: "nat \<Rightarrow> char" where
  "hexDigit d = (if d < 10 then char_of (48 + d) else char_of (55 + d))"

definition percentByte :: "nat \<Rightarrow> string" where
  "percentByte b = [CHR ''%'', hexDigit (b div 16), hexDigit (b mod 16)]"

definition encodeChar :: "char \<Rightarrow> string" where
  "encodeChar c =
     (let n = (of_char c :: nat) in
      if isUnreserved c then [c]
      else if n < 128 then percentByte n
      else percentByte (192 + n div 64) @ percentByte (128 + n mod 64))"

definition encodeURIComponent :: "string \<Rightarrow> string" where
  "encodeURIComponent s = concat (map encodeChar s)"

definition placeholderLink :: string where
  "placeholderLink = ''[Create Issue](https://github.com)''"

text \<open>
  \<open>generateGithubIssueUrl\<close> (review-agent.ts). The title and the body are strings;
  the code block is optional. \<open>substring(0, n)\<close> keeps the first \<open>n\<close> code units.
\<close>

definition generateGithubIssueUrl ::
  "string \<Rightarrow> string \<Rightarrow> string \<Rightarrow> string \<Rightarrow> string option \<Rightarrow> string" where
  "generateGithubIssueUrl owner repoName title body codeblock =
     (if owner = [] \<or> repoName = [] then placeholderLink
      else if \<not> matchesRepoPattern owner \<or> \<not> matchesRepoPattern repoName then placeholderLink
      else
        let sanitizedTitle = take 200 title;
            sanitizedBody = take 5000 body;
            sanitizedCodeBlock =
              (case codeblock of None \<Rightarrow> [] | Some c \<Rightarrow> if c \<noteq> [] then take 10000 c else []);
            encodedTitle = encodeURIComponent sanitizedTitle;
            encodedBody = encodeURIComponent sanitizedBody;
            encodedCodeBlock =
              (if sanitizedCodeBlock \<noteq> []
               then encodeURIComponent (''\<newline>'' @ sanitizedCodeBlock @ ''\<newline>'')
               else []);
            url = ''https://github.com/'' @ owner @ ''/'' @ repoName @ ''/issues/new?title=''
                    @ encodedTitle @ ''&body='' @ encodedBody @ encodedCodeBlock;
            url' = (if length url > 2048
                    then ''https://github.com/'' @ owner @ ''/'' @ repoName
                           @ ''/issues/new?title='' @ encodedTitle @ ''&body='' @ encodedBody
                    else url)
        in ''[Create Issue]('' @ url' @ '')'')"

section \<open>Line renumbering\<close>








section \<open>JavaScript values\<close>

text \<open>
  The values that a JSON text or a parsed XML document is made of. Numbers are
  integers: fractions, \<open>NaN\<close>, the infinities and integers beyond
  \<open>Number.MAX_SAFE_INTEGER\<close> are outside the model. An object is the list of its
  own properties.
\<close>

datatype jsval =
    JUndefined
  | JNull
  | JBool bool
  | JNum int
  | JStr string
  | JArr "jsval list"
  | JObj "(string \<times> jsval) list"

text \<open>What \<open>if (v)\<close>, \<open>!v\<close> and \<open>v || d\<close> test.\<close>

fun truthy :: "jsval \<Rightarrow> bool" where
  "truthy JUndefined = False"
| "truthy JNull = False"
| "truthy (JBool b) = b"
| "truthy (JNum n) = (n \<noteq> 0)"
| "truthy (JStr s) = (s \<noteq> [])"
| "truthy (JArr xs) = True"
| "truthy (JObj ps) = True"


fun isNumber :: "jsval \<Rightarrow> bool" where
  "isNumber (JNum n) = True"
| "isNumber v = False"


text \<open>
  Reading a property with a name that is neither an index nor \<open>length\<close>, from a value
  that is neither \<open>undefined\<close> nor \<open>null\<close>: only an object can have it.
\<close>

fun getProp :: "jsval \<Rightarrow> string \<Rightarrow> jsval" where
  "getProp (JObj ps) k = (case map_of ps k of None \<Rightarrow> JUndefined | Some v \<Rightarrow> v)"
| "getProp v k = JUndefined"

text \<open>\<open>String(v)\<close>, which is also what a template literal puts in for \<open>v\<close>.\<close>

fun js_toString :: "jsval \<Rightarrow> string"
  and js_elements :: "jsval list \<Rightarrow> string list" where
  "js_toString JUndefined = ''undefined''"
| "js_toString JNull = ''null''"
| "js_toString (JBool b) = (if b then ''true'' else ''false'')"
| "js_toString (JNum n) = showInt n"
| "js_toString (JStr s) = s"
| "js_toString (JArr xs) = join '','' (js_elements xs)"
| "js_toString (JObj ps) = ''[object Object]''"
| "js_elements [] = []"
| "js_elements (x # xs) =
     (if x = JUndefined \<or> x = JNull then [] else js_toString x) # js_elements xs"

section \<open>The structured parser: from parsed XML to suggestions\<close>





section \<open>Suggestions and their deduplication\<close>

text \<open>
  \<open>PRSuggestion\<close> (constants.ts, data/PRSuggestionImpl.ts): the five fields the
  constructor of \<open>PRSuggestionImpl\<close> receives, in its argument order.
\<close>

record PRSuggestion =
  describe :: string
  type :: string
  comment :: string
  code :: string
  filename :: string








text \<open>
  \<open>dedupSuggestions\<close> (review-agent.ts). The method \<open>identity()\<close> of
  \<open>PRSuggestionImpl\<close> is not among the sources, so it is the parameter
  \<open>identity\<close>.
\<close>

definition dedupSuggestions ::
  "(PRSuggestion \<Rightarrow> string) \<Rightarrow> PRSuggestion list \<Rightarrow> PRSuggestion list" where
  "dedupSuggestions identity suggestions =
     map_values (foldl (\<lambda>suggestionsMap suggestion.
        map_set (identity suggestion) suggestion suggestionsMap) [] suggestions)"

section \<open>The fallback parser\<close>

text \<open>The class \<open>\w\<close>: letters, digits and the underscore.\<close>

definition isWord :: "char \<Rightarrow> bool" where
  "isWord c = (isAlnum c \<or> c = CHR ''_'')"

text \<open>\<open>String.prototype.indexOf\<close>, with \<open>None\<close> for -1.\<close>

fun indexOf :: "string \<Rightarrow> string \<Rightarrow> nat option" where
  "indexOf p [] = (if p = [] then Some 0 else None)"
| "indexOf p (x # xs) =
     (if startsWith (x # xs) p then Some 0 else map_option Suc (indexOf p xs))"

definition fence :: string where
  "fence = ''```''"

text \<open>
  One call of \<open>codeBlockRegex.exec\<close> for \<open>/```(?:(\w+))?\s*([\s\S]*?)```/g\<close>, on the
  text from \<open>lastIndex\<close> on: the index of the match in that text, the two capture
  groups, and the text after the match. The leftmost match starts at the first fence
  that has another fence after it. A backtick is neither a word character nor white
  space, so the language tag and the white space after it are the longest runs, and
  the lazy group ends at the first fence after them; when there is none, no later
  start can match either.
\<close>

definition execCodeBlock :: "string \<Rightarrow> (nat \<times> string option \<times> string \<times> string) option" where
  "execCodeBlock s =
     (case indexOf fence s of
        None \<Rightarrow> None
      | Some i \<Rightarrow>
          let afterOpen = drop (i + 3) s;
              word = takeWhile isWord afterOpen;
              afterSpace = dropWhile isSpace (dropWhile isWord afterOpen)
          in (case indexOf fence afterSpace of
                None \<Rightarrow> None
              | Some j \<Rightarrow>
                  Some (i, if word = [] then None else Some word,
                        take j afterSpace, drop (j + 3) afterSpace)))"

record codeBlockMatch =
  matchIndex :: nat
  matchLanguage :: "string option"
  matchCode :: string

lemma indexOf_bound: "indexOf p s = Some i \<Longrightarrow> i + length p \<le> length s"
proof (induction s arbitrary: i)
  case Nil
  then show ?case by (simp split: if_splits)
next
  case (Cons x xs)
  show ?case
  proof (cases "startsWith (x # xs) p")
    case True
    then have "length p \<le> length (x # xs)"
      unfolding startsWith_def by (metis length_take min.cobounded1 min.commute)
    with True Cons.prems show ?thesis by simp
  next
    case False
    with Cons.prems obtain i' where "indexOf p xs = Some i'" "i = Suc i'" by auto
    with Cons.IH[of i'] show ?thesis by simp
  qed
qed

lemma execCodeBlock_shorter:
  assumes "execCodeBlock s = Some (i, l, c, r)"
  shows "length r < length s"
proof -
  from assms obtain j where i: "indexOf fence s = Some i"
    and j: "indexOf fence (dropWhile isSpace (dropWhile isWord (drop (i + 3) s))) = Some j"
    and r: "r = drop (j + 3) (dropWhile isSpace (dropWhile isWord (drop (i + 3) s)))"
    by (auto simp: execCodeBlock_def Let_def split: option.splits)
  from indexOf_bound[OF i] have "i + 3 \<le> length s" by (simp add: fence_def)
  moreover have "length r \<le> length (drop (i + 3) s)"
    unfolding r using length_dropWhile_le[of isSpace "dropWhile isWord (drop (i + 3) s)"]
      length_dropWhile_le[of isWord "drop (i + 3) s"]
    by simp
  ultimately show ?thesis by simp
qed

text \<open>
  The loop \<open>while ((match = codeBlockRegex.exec(text)) !== null)\<close>: all matches, with
  their indices in the whole text. \<open>offset\<close> is \<open>lastIndex\<close>.
\<close>

function scanCodeBlocks :: "nat \<Rightarrow> string \<Rightarrow> codeBlockMatch list" where
  "scanCodeBlocks offset s =
     (case execCodeBlock s of
        None \<Rightarrow> []
      | Some (i, l, c, r) \<Rightarrow>
          \<lparr>matchIndex = offset + i, matchLanguage = l, matchCode = c\<rparr>
            # scanCodeBlocks (offset + (length s - length r)) r)"
  by pat_completeness auto
termination
  by (relation "measure (\<lambda>(offset, s). length s)") (auto dest: execCodeBlock_shorter)

declare scanCodeBlocks.simps [simp del]

text \<open>
  The table \<open>extensionMap\<close> is an object literal, so a lookup also finds what every
  object inherits: under the lowercased names \<open>constructor\<close> and \<open>__proto__\<close> it
  finds a function and an object, which the template literal prints as below (on V8).
\<close>

definition extensionMap :: "(string \<times> string) list" where
  "extensionMap =
     [(''js'', ''js''), (''javascript'', ''js''), (''ts'', ''ts''), (''typescript'', ''ts''),
      (''py'', ''py''), (''python'', ''py''), (''java'', ''java''), (''c'', ''c''),
      (''cpp'', ''cpp''), (''cs'', ''cs''), (''go'', ''go''), (''rust'', ''rs''),
      (''php'', ''php''), (''ruby'', ''rb''), (''html'', ''html''), (''css'', ''css'')]"

definition fallbackExtension :: "string \<Rightarrow> string" where
  "fallbackExtension language =
     (case map_of extensionMap (toLowerCase language) of
        Some e \<Rightarrow> e
      | None \<Rightarrow>
          if toLowerCase language = ''constructor'' then ''function Object() { [native code] }''
          else if toLowerCase language = ''__proto__'' then ''[object Object]''
          else ''txt'')"

text \<open>
  The body of the loop of \<open>fallbackTextParser\<close> for one match; \<open>None\<close> where the
  loop goes on without a suggestion. Three uses of regular expressions are parameters:
  \<open>matchFilename\<close> tries the four file name patterns in turn on the text before
  the block and gives the first capture; \<open>splitParagraphs\<close> is
  \<open>split(/\n\s*\n/)\<close> and \<open>splitSentences\<close> is \<open>split(/[.!?]\s+/)\<close>.
\<close>

definition blockSuggestion ::
  "(string \<Rightarrow> string option) \<Rightarrow> (string \<Rightarrow> string list) \<Rightarrow> (string \<Rightarrow> string list) \<Rightarrow>
   string \<Rightarrow> codeBlockMatch \<Rightarrow> PRSuggestion option" where
  "blockSuggestion matchFilename splitParagraphs splitSentences text m =
     (let language = (case matchLanguage m of None \<Rightarrow> ''js'' | Some l \<Rightarrow> l);
          code = matchCode m
      in if code = [] \<or> length (trim code) = 0 then None
         else
           let searchStart = matchIndex m - 500;
               beforeBlock = take (matchIndex m - searchStart) (drop searchStart text);
               filename =
                 (case matchFilename beforeBlock of
                    Some f \<Rightarrow>
                      if f \<noteq> [] then f
                      else ''code-suggestion.'' @ fallbackExtension language
                  | None \<Rightarrow> ''code-suggestion.'' @ fallbackExtension language);
               commentSearchArea = drop (length beforeBlock - 300) beforeBlock;
               paragraphs = splitParagraphs commentSearchArea;
               comment1 = (if length paragraphs > 0 then trim (last paragraphs) else []);
               sentences = splitSentences commentSearchArea;
               comment2 =
                 (if comment1 = [] \<or> length comment1 < 20 then
                    (if length sentences > 0
                     then trim (join ''. '' (drop (length sentences - 2) sentences))
                     else comment1)
                  else comment1);
               comment3 =
                 (if comment2 = [] \<or> length comment2 < 20
                  then ''Consider this code improvement for better '' @ language
                         @ '' implementation''
                  else comment2)
           in Some \<lparr>describe = ''Code suggestion for '' @ filename,
                    type = ''improvement'',
                    comment = comment3,
                    code = ''```'' @ language @ ''\<newline>'' @ code @ ''\<newline>```'',
                    filename = filename\<rparr>)"

text \<open>\<open>fallbackTextParser\<close> (review-agent.ts).\<close>

definition fallbackTextParser ::
  "(string \<Rightarrow> string option) \<Rightarrow> (string \<Rightarrow> string list) \<Rightarrow> (string \<Rightarrow> string list) \<Rightarrow>
   string \<Rightarrow> PRSuggestion list" where
  "fallbackTextParser matchFilename splitParagraphs splitSentences text =
     List.map_filter (blockSuggestion matchFilename splitParagraphs splitSentences text)
       (scanCodeBlocks 0 text)"

text \<open>
  In the words of the specification: a reply that holds fenced code blocks. A block
  comes after a lead text; it is an opening fence of three backticks, an optional
  language tag, a line feed, the body, a line feed and the closing fence. The reply is
  its blocks in order and a trailing text.
\<close>

record fencedBlock =
  blockLead :: string
  blockTag :: string
  blockBody :: string

definition renderBlock :: "fencedBlock \<Rightarrow> string" where
  "renderBlock b =
     blockLead b @ ''```'' @ blockTag b @ ''\<newline>'' @ blockBody b @ ''\<newline>'' @ ''```''"

definition replyText :: "fencedBlock list \<Rightarrow> string \<Rightarrow> string" where
  "replyText blocks trailing = concat (map renderBlock blocks) @ trailing"

text \<open>
  A text holds a fence when three backticks in a row occur in it. The blocks of a
  reply are these and no others when no lead text holds a fence or ends with a
  backtick, every tag is made of word characters, no body holds a fence, and the
  trailing text holds no fence. A body is not blank when it has a character that is
  not white space.
\<close>

fun hasFence :: "string \<Rightarrow> bool" where
  "hasFence (a # b # c # r) =
     ((a = CHR 0x60 \<and> b = CHR 0x60 \<and> c = CHR 0x60) \<or> hasFence (b # c # r))"
| "hasFence s = False"

definition wellFenced :: "fencedBlock \<Rightarrow> bool" where
  "wellFenced b =
     (\<not> hasFence (blockLead b)
      \<and> (blockLead b = [] \<or> last (blockLead b) \<noteq> CHR 0x60)
      \<and> list_all isWord (blockTag b)
      \<and> \<not> hasFence (blockBody b))"

definition nonBlank :: "string \<Rightarrow> bool" where
  "nonBlank s = list_ex (\<lambda>c. \<not> isSpace c) s"

section \<open>Inline fixes\<close>

text \<open>
  \<open>CodeSuggestion\<close> (constants.ts); \<open>file'\<close> is its field \<open>file\<close>. The line
  numbers are what the completion service gave; the comment is
  \<open>args["comment"] || ''\<close>, whatever value that is.
\<close>

record CodeSuggestion =
  file' :: string
  line_start :: int
  line_end :: int
  correction :: string
  comment :: jsval

text \<open>
  \<open>Array.prototype.slice\<close> with two integer arguments: a negative argument counts
  from the end, and both are clamped to the array.
\<close>

definition js_slice :: "'a list \<Rightarrow> int \<Rightarrow> int \<Rightarrow> 'a list" where
  "js_slice xs start end' =
     (let len = int (length xs);
          k = (if start < 0 then max (len + start) 0 else min start len);
          final = (if end' < 0 then max (len + end') 0 else min end' len)
      in take (nat (final - k)) (drop (nat k) xs))"

text \<open>\<open>indentCodeFix\<close> (review-agent.ts). The pattern \<open>/^[ \t]{0,100}/\<close> matches the
  leading spaces and tabs, at most 100 of them.\<close>

definition indentCodeFix :: "string \<Rightarrow> string \<Rightarrow> int \<Rightarrow> string" where
  "indentCodeFix contents code' lineStart =
     (let fileLines = split_on CHR ''\<newline>'' contents in
      if lineStart < 1 \<or> lineStart > int (length fileLines) then code'
      else
        let firstLine = fileLines ! nat (lineStart - 1);
            codeLines = split_on CHR ''\<newline>'' code';
            indentation = take 100 (takeWhile (\<lambda>c. c = CHR '' '' \<or> c = CHR 0x09) firstLine);
            indentedCodeLines = map (\<lambda>line. indentation @ line) codeLines
        in join ''\<newline>'' indentedCodeLines)"

text \<open>\<open>isCodeSuggestionNew\<close> (review-agent.ts).\<close>

definition isCodeSuggestionNew :: "string \<Rightarrow> CodeSuggestion \<Rightarrow> bool" where
  "isCodeSuggestionNew contents suggestion =
     (let fileLines = split_on CHR ''\<newline>'' contents;
          targetLines = join ''\<newline>''
            (js_slice fileLines (line_start suggestion - 1) (line_end suggestion))
      in if trim targetLines = trim (correction suggestion) then False else True)"

text \<open>
  The collaborators of \<open>generateInlineComments\<close>: \<open>getInlineFixPrompt\<close>
  (prompts/inline-prompt.ts) builds the request; \<open>generateChatCompletion\<close>
  (llms/chat.ts), asked for a call of the inline-fix function, throws or gives the
  arguments text of the function call, \<open>None\<close> when the reply has no function call;
  \<open>JSON.parse\<close> gives \<open>None\<close> where it throws.
\<close>

record inlineServices =
  getInlineFixPrompt :: "string \<Rightarrow> PRSuggestion \<Rightarrow> message list"
  completeInlineFix :: "message list \<Rightarrow> error + string option"
  JSON_parse :: "string \<Rightarrow> jsval option"

text \<open>
  The first part of \<open>generateInlineComments\<close> (review-agent.ts), up to the object
  \<open>codeFix\<close>: the fix that the completion service proposes, \<open>None\<close> where the
  function returns \<open>null\<close> before it has one. An empty text of the file is falsy.
  Reading a property of \<open>null\<close> throws, and the function catches what is thrown.
\<close>

definition codeFix :: "inlineServices \<Rightarrow> PRSuggestion \<Rightarrow> PRFile \<Rightarrow> CodeSuggestion option" where
  "codeFix svc suggestion file =
     (case current_contents file of
        None \<Rightarrow> None
      | Some contents \<Rightarrow>
          if contents = [] then None
          else
            (case completeInlineFix svc (getInlineFixPrompt svc contents suggestion) of
               Inl e \<Rightarrow> None
             | Inr None \<Rightarrow> None
             | Inr (Some arguments) \<Rightarrow>
                 (case JSON_parse svc arguments of
                    None \<Rightarrow> None
                  | Some args \<Rightarrow>
                      if args = JNull \<or> args = JUndefined then None
                      else if \<not> truthy (getProp args ''code'') then None
                      else
                        (case (getProp args ''lineStart'', getProp args ''lineEnd'') of
                           (JNum lineStart, JNum lineEnd) \<Rightarrow>
                             let initialCode = js_toString (getProp args ''code'');
                                 indentedCode = indentCodeFix contents initialCode lineStart
                             in Some \<lparr>file' = PRSuggestion.filename suggestion,
                                      line_start = lineStart,
                                      line_end = lineEnd,
                                      correction = indentedCode,
                                      comment =
                                        (if truthy (getProp args ''comment'')
                                         then getProp args ''comment'' else JStr [])\<rparr>
                         | _ \<Rightarrow> None))))"

text \<open>\<open>generateInlineComments\<close> (review-agent.ts): the proposed fix, unless it is
  not new.\<close>

definition generateInlineComments ::
  "inlineServices \<Rightarrow> PRSuggestion \<Rightarrow> PRFile \<Rightarrow> CodeSuggestion option" where
  "generateInlineComments svc suggestion file =
     (case codeFix svc suggestion file of
        None \<Rightarrow> None
      | Some fix \<Rightarrow>
          if isCodeSuggestionNew (the (current_contents file)) fix then Some fix else None)"

text \<open>
  In the words of the specification: the text of the lines of a file whose numbers,
  counted from 1, lie between \<open>a\<close> and \<open>b\<close>, both included.
\<close>

definition linesInRange :: "string \<Rightarrow> int \<Rightarrow> int \<Rightarrow> string" where
  "linesInRange contents a b =
     (let fileLines = split_on CHR ''\<newline>'' contents;
          numbered = zip fileLines [0..<length fileLines]
      in join ''\<newline>''
           (map fst (filter (\<lambda>(line, i). a \<le> int i + 1 \<and> int i + 1 \<le> b) numbered)))"

section \<open>The review of a change set\<close>

text \<open>
  \<open>BuilderResponse\<close> and \<open>Builders\<close> (constants.ts). A response builder is
  asynchronous and may reject.
\<close>

record BuilderResponse =
  comment :: string
  structuredComments :: "PRSuggestion list"

record Builders =
  convoBuilder :: "string \<Rightarrow> message list"
  responseBuilder :: "string list \<Rightarrow> error + BuilderResponse"

text \<open>
  The collaborators of a review: the two tokenizer functions of the package
  gpt-tokenizer, as the number of tokens they give; the two patch strategies of
  context/review.ts; and \<open>generateChatCompletion\<close> (llms/chat.ts) for a plain
  request, which throws or gives the content of the reply. The tokenizer functions and
  the patch strategies are total here: gpt-tokenizer raises an error for a text that
  holds one of its special tokens, and a review of such a text is outside the model.
\<close>

record reviewServices =
  encode :: "string \<Rightarrow> nat"
  encodeChat :: "message list \<Rightarrow> nat"
  rawPatchStrategy :: "PRFile \<Rightarrow> string"
  smarterContextPatchStrategy :: "PRFile \<Rightarrow> string"
  generateChatCompletion :: "message list \<Rightarrow> error + string"

definition getTokenLength :: "reviewServices \<Rightarrow> string \<Rightarrow> nat" where
  "getTokenLength svc blob = encode svc blob"

definition patchBuilderOf :: "reviewServices \<Rightarrow> PRFile \<Rightarrow> string" where
  "patchBuilderOf svc = buildPatchPrompt (rawPatchStrategy svc) (smarterContextPatchStrategy svc)"

text \<open>\<open>reviewDiff\<close> and \<open>reviewFiles\<close> (review-agent.ts).\<close>

definition reviewDiff :: "reviewServices \<Rightarrow> message list \<Rightarrow> error + string" where
  "reviewDiff svc messages = generateChatCompletion svc messages"

definition reviewFiles ::
  "reviewServices \<Rightarrow> PRFile list \<Rightarrow> (PRFile \<Rightarrow> string) \<Rightarrow> (string \<Rightarrow> message list) \<Rightarrow>
   error + string" where
  "reviewFiles svc files patchBuilder convoBuilder' =
     (let patches = map patchBuilder files;
          messages = convoBuilder' (join ''\<newline>'' patches)
      in reviewDiff svc messages)"

text \<open>\<open>Promise.all\<close>: all the results, or a rejection when one of the promises rejects.\<close>

fun promiseAll :: "(error + 'a) list \<Rightarrow> error + 'a list" where
  "promiseAll [] = Inr []"
| "promiseAll (Inl e # ps) = Inl e"
| "promiseAll (Inr x # ps) = (case promiseAll ps of Inl e \<Rightarrow> Inl e | Inr xs \<Rightarrow> Inr (x # xs))"

text \<open>
  The first part of \<open>reviewChanges\<close> (review-agent.ts): the filter, the token
  length stored in every file that passed, the split by whether a file fits alone,
  and the two lists the split gives.
\<close>

definition filteredWithLength :: "reviewServices \<Rightarrow> PRFile list \<Rightarrow> PRFile list" where
  "filteredWithLength svc files =
     (let patchBuilder = patchBuilderOf svc;
          filteredFiles = filter (\<lambda>file. filterFile (PRFile.filename file)) files
      in map (\<lambda>file. file\<lparr>patchTokenLength := getTokenLength svc (patchBuilder file)\<rparr>)
           filteredFiles)"

definition patchesWithinModelLimit ::
  "reviewServices \<Rightarrow> PRFile list \<Rightarrow> (string \<Rightarrow> message list) \<Rightarrow> PRFile list" where
  "patchesWithinModelLimit svc files convoBuilder' =
     filter (\<lambda>file. withinLimit (encodeChat svc) (patchBuilderOf svc) convoBuilder' [file])
       (filteredWithLength svc files)"

definition patchesOutsideModelLimit ::
  "reviewServices \<Rightarrow> PRFile list \<Rightarrow> (string \<Rightarrow> message list) \<Rightarrow> PRFile list" where
  "patchesOutsideModelLimit svc files convoBuilder' =
     filter (\<lambda>file. \<not> withinLimit (encodeChat svc) (patchBuilderOf svc) convoBuilder' [file])
       (filteredWithLength svc files)"

text \<open>The list \<open>groups\<close> of \<open>reviewChanges\<close>.\<close>

definition reviewGroups ::
  "reviewServices \<Rightarrow> PRFile list \<Rightarrow> (string \<Rightarrow> message list) \<Rightarrow> PRFile list list" where
  "reviewGroups svc files convoBuilder' =
     (let patchBuilder = patchBuilderOf svc;
          withinLimitsPatchGroups =
            processWithinLimitFiles (encodeChat svc)
              (patchesWithinModelLimit svc files convoBuilder') patchBuilder convoBuilder';
          exceedingLimitsPatchGroups =
            processOutsideLimitFiles (encodeChat svc)
              (patchesOutsideModelLimit svc files convoBuilder') patchBuilder convoBuilder'
      in withinLimitsPatchGroups @ exceedingLimitsPatchGroups)"

text \<open>
  \<open>reviewChanges\<close> (review-agent.ts). The requests for the groups run inside the
  outer \<open>try\<close>, the response builder inside the inner one; each \<open>catch\<close> returns a
  response of its own.
\<close>

definition reviewChanges ::
  "reviewServices \<Rightarrow> PRFile list \<Rightarrow> (string \<Rightarrow> message list) \<Rightarrow>
   (string list \<Rightarrow> error + BuilderResponse) \<Rightarrow> error + BuilderResponse" where
  "reviewChanges svc files convoBuilder' responseBuilder' =
     (let patchBuilder = patchBuilderOf svc;
          groups = reviewGroups svc files convoBuilder'
      in case promiseAll
                (map (\<lambda>patchGroup. reviewFiles svc patchGroup patchBuilder convoBuilder') groups) of
           Inl error \<Rightarrow>
             Inr \<lparr>comment = ''Error occurred during review process'',
                  structuredComments = []\<rparr>
         | Inr feedbacks \<Rightarrow>
             (case responseBuilder' feedbacks of
                Inl exc \<Rightarrow>
                  Inr \<lparr>comment =
                         ''Unable to process XML response correctly. Review generated but parsing failed.'',
                       structuredComments = []\<rparr>
              | Inr response \<Rightarrow> Inr response))"

text \<open>\<open>reviewChangesRetry\<close> (review-agent.ts).\<close>

fun reviewChangesRetry ::
  "reviewServices \<Rightarrow> PRFile list \<Rightarrow> Builders list \<Rightarrow> error + BuilderResponse" where
  "reviewChangesRetry svc files [] = Inl (Error ''All convoBuilders failed.'')"
| "reviewChangesRetry svc files (b # builders) =
     (case reviewChanges svc files (convoBuilder b) (responseBuilder b) of
        Inr response \<Rightarrow> Inr response
      | Inl error \<Rightarrow> reviewChangesRetry svc files builders)"

text \<open>\<open>basicResponseBuilder\<close>, and the two prompt builders of prompts.ts with their
  system prompts as parameters.\<close>

definition basicResponseBuilder :: "string list \<Rightarrow> error + BuilderResponse" where
  "basicResponseBuilder feedbacks =
     (let commentBlob = join ''\<newline>'' feedbacks
      in Inr \<lparr>comment = commentBlob, structuredComments = []\<rparr>)"

definition getReviewPrompt :: "string \<Rightarrow> string \<Rightarrow> message list" where
  "getReviewPrompt REVIEW_DIFF_PROMPT diff =
     [\<lparr>role = ''system'', content = REVIEW_DIFF_PROMPT\<rparr>,
      \<lparr>role = ''user'', content = diff\<rparr>]"

definition getXMLReviewPrompt :: "string \<Rightarrow> string \<Rightarrow> message list" where
  "getXMLReviewPrompt XML_PR_REVIEW_PROMPT diff =
     [\<lparr>role = ''system'', content = XML_PR_REVIEW_PROMPT\<rparr>,
      \<lparr>role = ''user'', content = diff\<rparr>]"

section \<open>Rendering the review\<close>





text \<open>
  The collaborators of the structured and the fallback parser, as described with
  \<open>processXMLSuggestions\<close>, \<open>dedupSuggestions\<close> and \<open>blockSuggestion\<close>.
\<close>

record parserServices =
  parseFeedback :: "string \<Rightarrow> jsval"
  JSON_stringify :: "jsval \<Rightarrow> string option"
  identityOf :: "PRSuggestion \<Rightarrow> string"
  matchFilename :: "string \<Rightarrow> string option"
  splitParagraphs :: "string \<Rightarrow> string list"
  splitSentences :: "string \<Rightarrow> string list"



section \<open>The pull request\<close>

text \<open>
  What \<open>processPullRequest\<close> reads from the webhook payload, and its collaborators:
  \<open>getGitFile\<close> (reviews.ts) throws or gives the content of a file on a branch,
  \<open>None\<close> for \<open>null\<close>; the two system prompts are the constants of prompts.ts.
\<close>

record BranchDetails =
  name :: string
  sha :: string
  url :: string

record pullRequestPayload =
  ownerLogin :: string
  repositoryName :: string
  baseBranch :: BranchDetails
  currentBranch :: BranchDetails

record pullRequestServices =
  reviewing :: reviewServices
  parsing :: parserServices
  inlining :: inlineServices
  getGitFile :: "BranchDetails \<Rightarrow> string \<Rightarrow> error + string option"
  XML_PR_REVIEW_PROMPT :: string
  REVIEW_DIFF_PROMPT :: string

record Review =
  review :: "BuilderResponse option"
  suggestions :: "CodeSuggestion list"

text \<open>\<open>preprocessFile\<close> (review-agent.ts): the file with both contents stored in it.\<close>

definition preprocessFile ::
  "pullRequestServices \<Rightarrow> pullRequestPayload \<Rightarrow> PRFile \<Rightarrow> error + PRFile" where
  "preprocessFile svc payload file =
     (case promiseAll
             [getGitFile svc (baseBranch payload) (PRFile.filename file),
              getGitFile svc (currentBranch payload) (PRFile.filename file)] of
        Inl e \<Rightarrow> Inl e
      | Inr contents \<Rightarrow>
          Inr (file\<lparr>old_contents := contents ! 0, current_contents := contents ! 1\<rparr>))"

text \<open>
  The files are objects that \<open>preprocessFile\<close> and \<open>reviewChanges\<close> change in
  place. After a review, a file that passed the filter holds its contents and its
  token length; a file that did not pass is as it was.
\<close>

definition changedFile :: "pullRequestServices \<Rightarrow> pullRequestPayload \<Rightarrow> PRFile \<Rightarrow> PRFile" where
  "changedFile svc payload file =
     (if filterFile (PRFile.filename file) then
        (case preprocessFile svc payload file of
           Inl e \<Rightarrow> file
         | Inr p \<Rightarrow>
             p\<lparr>patchTokenLength :=
                  getTokenLength (reviewing svc) (patchBuilderOf (reviewing svc) p)\<rparr>)
      else file)"



text \<open>
  Names for parts of the batch planner: the extension \<open>groupFilesByExtension\<close> reads
  from a file, its step for one file, and what the budget invariant says of a list of
  groups.
\<close>

definition extensionOf :: "PRFile \<Rightarrow> string" where
  "extensionOf file = toLowerCase (last (split_on CHR ''.'' (PRFile.filename file)))"

definition pushFile :: "string \<Rightarrow> PRFile \<Rightarrow> PRFile list js_map \<Rightarrow> PRFile list js_map" where
  "pushFile extension file filesByExtension =
          (let withKey = (if \<not> map_has filesByExtension extension
                         then map_set extension [] filesByExtension
                         else filesByExtension)
          in (case map_get withKey extension of
                None \<Rightarrow> withKey
              | Some stored \<Rightarrow> map_set extension (stored @ [file]) withKey))"

definition goodGroups :: "(PRFile list \<Rightarrow> bool) \<Rightarrow> PRFile list list \<Rightarrow> bool" where
  "goodGroups fits pg \<longleftrightarrow> (\<forall>g \<in> set pg. g \<noteq> [] \<and> fits g)"

text \<open>
  The invariant of the map that \<open>dedupSuggestions\<close> builds: no key twice, and every
  suggestion stored under its own identity.
\<close>

definition keyed :: "(PRSuggestion \<Rightarrow> string) \<Rightarrow> PRSuggestion js_map \<Rightarrow> bool" where
  "keyed identity m \<longleftrightarrow> distinct (map fst m) \<and> (\<forall>(k, v) \<in> set m. k = identity v)"

text \<open>
  Example data: three suggestions, the first and the third for the same place, and an
  identity that reads the file name and the description.
\<close>

definition exampleIdentity :: "PRSuggestion \<Rightarrow> string" where
  "exampleIdentity s = PRSuggestion.filename s @ '':'' @ describe s"

definition suggestionA :: PRSuggestion where
  "suggestionA = \<lparr>describe = ''close the handle'', type = ''bug'',
     comment = ''first wording'', code = ''f.close()'', filename = ''src/a.py''\<rparr>"

definition suggestionB :: PRSuggestion where
  "suggestionB = \<lparr>describe = ''use a constant'', type = ''readability'',
     comment = ''magic number'', code = ''LIMIT = 10'', filename = ''src/b.py''\<rparr>"

definition suggestionA' :: PRSuggestion where
  "suggestionA' = \<lparr>describe = ''close the handle'', type = ''bug'',
     comment = ''second wording'', code = ''f.close()'', filename = ''src/a.py''\<rparr>"

text \<open>
  Example collaborators: a tokenizer that counts one token for every character, a
  patch strategy that puts the file name above the diff, and a completion service
  that is down.
\<close>

definition examplePatch :: "PRFile \<Rightarrow> string" where
  "examplePatch f =
     ''## '' @ PRFile.filename f @ ''\<newline>\<newline>''
       @ (case patch f of None \<Rightarrow> ''undefined'' | Some p \<Rightarrow> p)"

definition charTokens :: "message list \<Rightarrow> nat" where
  "charTokens convo = sum_list (map (\<lambda>m. length (content m)) convo)"

definition failingCompletion :: "message list \<Rightarrow> error + string" where
  "failingCompletion messages = Inl (Error ''service unavailable'')"

definition exampleServices :: reviewServices where
  "exampleServices =
     \<lparr>encode = length, encodeChat = charTokens,
      rawPatchStrategy = examplePatch, smarterContextPatchStrategy = examplePatch,
      generateChatCompletion = failingCompletion\<rparr>"

definition exampleFile :: PRFile where
  "exampleFile =
     \<lparr>PRFile.filename = ''src/a.ts'', patch = Some ''@@ -1,1 +1,1 @@\<newline>-x\<newline>+y'',
      old_contents = None, current_contents = None, patchTokenLength = 0\<rparr>"

definition examplePrompt :: "string \<Rightarrow> message list" where
  "examplePrompt = getXMLReviewPrompt ''Review the diff. Answer in XML.''"

definition exampleBuilders :: "Builders list" where
  "exampleBuilders =
     [\<lparr>convoBuilder = examplePrompt,
       responseBuilder = basicResponseBuilder\<rparr>,
      \<lparr>convoBuilder = getReviewPrompt ''Review the diff.'',
       responseBuilder = basicResponseBuilder\<rparr>]"

text \<open>
  Two files that fit the budget of 128000 tokens one by one and not together; the name
  of the first ends with a dot.
\<close>

definition largePatch :: string where
  "largePatch = replicate 70000 CHR ''+''"

definition notesFile :: PRFile where
  "notesFile =
     \<lparr>PRFile.filename = ''docs/notes.'', patch = Some largePatch,
      old_contents = None, current_contents = None, patchTokenLength = 0\<rparr>"

definition codeFile :: PRFile where
  "codeFile =
     \<lparr>PRFile.filename = ''src/b.ts'', patch = Some largePatch,
      old_contents = None, current_contents = None, patchTokenLength = 0\<rparr>"

text \<open>
  An example for the inline fix: a file of three lines, and a completion service that
  proposes for line 2 the text that is already there.
\<close>

definition sourceFile :: PRFile where
  "sourceFile =
     \<lparr>PRFile.filename = ''src/a.py'', patch = Some ''@@ -1,3 +1,3 @@'',
      old_contents = None,
      current_contents = Some ''def f():\<newline>    return 1\<newline>'',
      patchTokenLength = 0\<rparr>"

definition exampleInline :: inlineServices where
  "exampleInline =
     \<lparr>getInlineFixPrompt = (\<lambda>contents s. [\<lparr>role = ''user'', content = contents\<rparr>]),
      completeInlineFix = (\<lambda>messages. Inr (Some ''arguments'')),
      JSON_parse = (\<lambda>t. if t = ''arguments''
                        then Some (JObj [(''code'', JStr ''return 1''),
                                         (''lineStart'', JNum 2), (''lineEnd'', JNum 2),
                                         (''comment'', JStr ''keep it'')])
                        else None)\<rparr>"

text \<open>A file that is over the budget even alone, a file that the filter excludes, and a reply with three fenced blocks, the second of them blank.\<close>

definition hugeFile :: PRFile where
  "hugeFile =
     \<lparr>PRFile.filename = ''dist/bundle.js'', patch = Some (replicate 130000 CHR ''+''),
      old_contents = None, current_contents = None, patchTokenLength = 0\<rparr>"


definition exampleBlocks :: "fencedBlock list" where
  "exampleBlocks =
     [\<lparr>blockLead = ''Use a constant, path: src/a.go\<newline>'', blockTag = ''go'',
       blockBody = ''const limit = 10''\<rparr>,
      \<lparr>blockLead = ''\<newline>Nothing here:\<newline>'', blockTag = '''', blockBody = ''  ''\<rparr>,
      \<lparr>blockLead = ''\<newline>Also `nil`:\<newline>'', blockTag = '''', blockBody = ''  return nil''\<rparr>]"



section \<open>Properties of the string functions\<close>


lemma split_on_no_sep: "c \<notin> set s \<Longrightarrow> split_on c s = [s]"
  by (induction s) auto



lemma afterLast_no_sep: "c \<notin> set s \<Longrightarrow> afterLast c s = s"
proof -
  assume "c \<notin> set s"
  then have "takeWhile (\<lambda>x. x \<noteq> c) (rev s) = rev s" by auto
  then show ?thesis unfolding afterLast_def by (simp only: rev_rev_ident)
qed



section \<open>Properties of the JavaScript map\<close>

lemma map_set_keys:
  "map fst (map_set k v m) = (if k \<in> fst ` set m then map fst m else map fst m @ [k])"
  by (induction m) (force+)

lemma map_set_absent: "k \<notin> fst ` set m \<Longrightarrow> map_set k v m = m @ [(k, v)]"
  by (induction m) auto

lemma map_set_distinct: "distinct (map fst m) \<Longrightarrow> distinct (map fst (map_set k v m))"
  by (simp add: map_set_keys)

lemma map_set_set: "set (map_set k v m) \<subseteq> insert (k, v) (set m)"
  by (induction m) (auto split: if_splits)

lemma map_of_map_set: "map_of (map_set k v m) = (map_of m)(k \<mapsto> v)"
  by (induction m) (auto simp: fun_eq_iff)

section \<open>Deduplication\<close>

lemma keyed_step: "keyed identity m \<Longrightarrow> keyed identity (map_set (identity s) s m)"
  unfolding keyed_def using map_set_set[of "identity s" s m] map_set_distinct[of m "identity s" s]
  by auto

lemma keyed_foldl:
  "keyed identity m \<Longrightarrow> keyed identity (foldl (\<lambda>a s. map_set (identity s) s a) m xs)"
  by (induction xs arbitrary: m) (auto simp: keyed_step)

lemma keyed_dedup: "keyed identity (foldl (\<lambda>a s. map_set (identity s) s a) [] xs)"
  by (rule keyed_foldl) (simp add: keyed_def)

lemma keyed_values: "keyed identity m \<Longrightarrow> map identity (map snd m) = map fst m"
  unfolding keyed_def by (induction m) auto

lemma dedup_distinct: "distinct (map identity (dedupSuggestions identity xs))"
proof -
  let ?m = "foldl (\<lambda>a s. map_set (identity s) s a) [] xs"
  have k: "keyed identity ?m" by (rule keyed_dedup)
  have "distinct (map fst ?m)"
    using k by (simp add: keyed_def)
  then have "distinct (map identity (map snd ?m))"
    by (simp only: keyed_values[OF k])
  then show ?thesis
    by (simp only: dedupSuggestions_def map_values_def)
qed

text \<open>Refilling an empty map from the values of a keyed map gives the same map.\<close>

lemma refill:
  "distinct (map fst (acc @ m)) \<Longrightarrow> (\<forall>(k, v) \<in> set m. k = identity v) \<Longrightarrow>
   foldl (\<lambda>a s. map_set (identity s) s a) acc (map snd m) = acc @ m"
proof (induction m arbitrary: acc)
  case Nil then show ?case by simp
next
  case (Cons p m)
  obtain k v where p: "p = (k, v)" by (cases p)
  from Cons.prems p have kv: "k = identity v" and notin: "k \<notin> fst ` set acc" by auto
  have "map_set (identity v) v acc = acc @ [(k, v)]"
    using map_set_absent[OF notin, of v] kv by simp
  moreover have "distinct (map fst ((acc @ [(k, v)]) @ m))" using Cons.prems p by simp
  moreover have "\<forall>(k, v) \<in> set m. k = identity v" using Cons.prems by simp
  ultimately show ?case using Cons.IH[of "acc @ [(k, v)]"] p by simp
qed

lemma dedup_idem:
  "dedupSuggestions identity (dedupSuggestions identity xs) = dedupSuggestions identity xs"
proof -
  let ?m = "foldl (\<lambda>a s. map_set (identity s) s a) [] xs"
  have k: "keyed identity ?m" by (rule keyed_dedup)
  then have "foldl (\<lambda>a s. map_set (identity s) s a) [] (map snd ?m) = [] @ ?m"
    by (intro refill) (auto simp: keyed_def)
  then show ?thesis by (simp add: dedupSuggestions_def map_values_def)
qed

text \<open>What the map holds under a key after the loop: the last suggestion with that
  identity, or what it held before when there is none.\<close>

lemma foldl_lookup:
  "map_of (foldl (\<lambda>a s. map_set (identity s) s a) m xs) k =
     (case filter (\<lambda>t. identity t = k) xs of
        [] \<Rightarrow> map_of m k
      | y # ys \<Rightarrow> Some (last (y # ys)))"
proof (induction xs arbitrary: m)
  case Nil then show ?case by simp
next
  case (Cons x xs)
  show ?case
    by (simp add: Cons.IH map_of_map_set split: list.splits)
qed

lemma keyed_filter:
  "keyed identity m \<Longrightarrow> map_of m k = Some v \<Longrightarrow>
   filter (\<lambda>t. identity t = k) (map snd m) = [v]"
proof (induction m)
  case Nil then show ?case by simp
next
  case (Cons p m)
  obtain k' v' where p: "p = (k', v')" by (cases p)
  from Cons.prems(1) p have kv: "k' = identity v'" and nin: "k' \<notin> fst ` set m"
    and km: "keyed identity m" by (auto simp: keyed_def)
  show ?case
  proof (cases "k' = k")
    case True
    with Cons.prems(2) p have "v' = v" by simp
    moreover have "filter (\<lambda>t. identity t = k) (map snd m) = []"
    proof -
      { fix t assume "t \<in> set (map snd m)" "identity t = k"
        then obtain kk where "(kk, t) \<in> set m" by auto
        with km have "kk = identity t" by (auto simp: keyed_def)
        with \<open>(kk, t) \<in> set m\<close> \<open>identity t = k\<close> True nin have False by force }
      then show ?thesis by (auto simp: filter_empty_conv)
    qed
    ultimately show ?thesis using p kv True by simp
  next
    case False
    with Cons.prems(2) p have "map_of m k = Some v" by simp
    from Cons.IH[OF km this] show ?thesis using p kv False by simp
  qed
qed

lemma dedup_last_wins:
  assumes "s \<in> set xs"
  shows "filter (\<lambda>t. identity t = identity s) (dedupSuggestions identity xs) =
         [last (filter (\<lambda>t. identity t = identity s) xs)]"
proof -
  let ?m = "foldl (\<lambda>a s. map_set (identity s) s a) [] xs"
  have k: "keyed identity ?m" by (rule keyed_dedup)
  from assms have ne: "filter (\<lambda>t. identity t = identity s) xs \<noteq> []"
    by (auto simp: filter_empty_conv)
  then have "map_of ?m (identity s) = Some (last (filter (\<lambda>t. identity t = identity s) xs))"
    by (simp add: foldl_lookup split: list.splits)
  from keyed_filter[OF k this] show ?thesis by (simp add: dedupSuggestions_def map_values_def)
qed

section \<open>Properties of the batch planner\<close>

lemma map_set_append_absent:
  "k \<notin> fst ` set m \<Longrightarrow> map_set k v (m @ [(k, w)]) = m @ [(k, v)]"
  by (induction m) auto

lemma map_of_append_absent: "k \<notin> fst ` set m \<Longrightarrow> map_of (m @ [(k, w)]) k = Some w"
  by (induction m) auto

lemma map_set_replace:
  "map_of m k = Some old \<Longrightarrow>
   mset (concat (map snd (map_set k new m))) + mset old = mset (concat (map snd m)) + mset new"
  by (induction m) (auto split: if_splits)

lemma pushFile_absent:
  "k \<notin> fst ` set m \<Longrightarrow> pushFile k f m = m @ [(k, [f])]"
proof -
  assume a: "k \<notin> fst ` set m"
  have 1: "map_set k [] m = m @ [(k, [])]" by (rule map_set_absent[OF a])
  have 2: "map_of (m @ [(k, [])]) k = Some []" by (rule map_of_append_absent[OF a])
  have 3: "map_set k [f] (m @ [(k, [])]) = m @ [(k, [f])]"
    by (rule map_set_append_absent[OF a])
  show ?thesis
    unfolding pushFile_def map_has_def map_get_def Let_def using a
    by (simp only: 1 2 3 if_True not_False_eq_True option.case append_Nil simp_thms)
qed

lemma pushFile_present:
  "k \<in> fst ` set m \<Longrightarrow> \<exists>old. map_of m k = Some old \<and> pushFile k f m = map_set k (old @ [f]) m"
proof -
  assume a: "k \<in> fst ` set m"
  then obtain old where "map_of m k = Some old"
    by (metis domD dom_map_of_conv_image_fst)
  with a show ?thesis by (simp add: pushFile_def map_has_def map_get_def)
qed

lemma pushFile_mset:
  "mset (concat (map snd (pushFile k f m))) = mset (concat (map snd m)) + {#f#}"
proof (cases "k \<in> fst ` set m")
  case True
  from pushFile_present[OF True, of f] obtain old where
    o: "map_of m k = Some old" "pushFile k f m = map_set k (old @ [f]) m" by blast
  from map_set_replace[OF o(1), of "old @ [f]"] o(2) show ?thesis by simp
next
  case False
  then show ?thesis by (simp add: pushFile_absent)
qed

lemma pushFile_nonempty:
  assumes "\<forall>(k', vs) \<in> set m. vs \<noteq> []"
  shows "\<forall>(k', vs) \<in> set (pushFile k f m). vs \<noteq> []"
proof (cases "k \<in> fst ` set m")
  case True
  from pushFile_present[OF True, of f] obtain old where
    o: "pushFile k f m = map_set k (old @ [f]) m" by blast
  show ?thesis unfolding o using map_set_set[of k "old @ [f]" m] assms by auto
next
  case False
  then show ?thesis using assms by (simp add: pushFile_absent)
qed

lemma groupFilesByExtension_alt:
  "groupFilesByExtension files =
     foldl (\<lambda>m file. if extensionOf file \<noteq> [] then pushFile (extensionOf file) file m else m) [] files"
  unfolding groupFilesByExtension_def pushFile_def extensionOf_def Let_def by (rule refl)

lemma group_fold_mset:
  "mset (concat (map snd (foldl (\<lambda>m file. if extensionOf file \<noteq> [] then pushFile (extensionOf file) file m else m) m0 files)))
   = mset (concat (map snd m0)) + mset (filter (\<lambda>f. extensionOf f \<noteq> []) files)"
  by (induction files arbitrary: m0) (simp_all add: pushFile_mset)

lemma group_fold_nonempty:
  "\<forall>(k', vs) \<in> set m0. vs \<noteq> [] \<Longrightarrow>
   \<forall>(k', vs) \<in> set (foldl (\<lambda>m file. if extensionOf file \<noteq> [] then pushFile (extensionOf file) file m else m) m0 files). vs \<noteq> []"
proof (induction files arbitrary: m0)
  case Nil then show ?case by simp
next
  case (Cons f fs)
  show ?case
  proof (cases "extensionOf f \<noteq> []")
    case True
    with Cons.IH[OF pushFile_nonempty[OF Cons.prems, of "extensionOf f" f]] show ?thesis by simp
  next
    case False
    with Cons.IH[OF Cons.prems] show ?thesis by simp
  qed
qed

lemma groupFilesByExtension_mset:
  "mset (concat (map_values (groupFilesByExtension files))) = mset (filter (\<lambda>f. extensionOf f \<noteq> []) files)"
  by (simp add: groupFilesByExtension_alt group_fold_mset map_values_def)

lemma groupFilesByExtension_nonempty:
  "g \<in> set (map_values (groupFilesByExtension files)) \<Longrightarrow> g \<noteq> []"
  using group_fold_nonempty[of "[]" files]
  by (auto simp: groupFilesByExtension_alt map_values_def)

lemma packStep_pair:
  "packStep fits (pg, cur) x =
     (if fits (cur @ [x]) then (pg, cur @ [x]) else (pg @ [cur], [x]))"
  by (simp add: packStep_def)

lemma pack_concat:
  "foldl (packStep fits) (pg, cur) xs = (pg', cur') \<Longrightarrow> concat pg' @ cur' = concat pg @ cur @ xs"
proof (induction xs arbitrary: pg cur)
  case Nil then show ?case by simp
next
  case (Cons x xs)
  show ?case
  proof (cases "fits (cur @ [x])")
    case True
    with Cons.prems have "foldl (packStep fits) (pg, cur @ [x]) xs = (pg', cur')"
      by (simp add: packStep_pair)
    from Cons.IH[OF this] show ?thesis by simp
  next
    case False
    with Cons.prems have "foldl (packStep fits) (pg @ [cur], [x]) xs = (pg', cur')"
      by (simp add: packStep_pair)
    from Cons.IH[OF this] show ?thesis by simp
  qed
qed

lemma pack_good:
  "foldl (packStep fits) (pg, cur) xs = (pg', cur') \<Longrightarrow> goodGroups fits pg \<Longrightarrow>
   cur = [] \<or> fits cur \<Longrightarrow> \<forall>x \<in> set xs. fits [x] \<Longrightarrow>
   goodGroups fits pg' \<and> (cur' = [] \<or> fits cur')"
proof (induction xs arbitrary: pg cur)
  case Nil then show ?case by simp
next
  case (Cons x xs)
  show ?case
  proof (cases "fits (cur @ [x])")
    case True
    with Cons.prems(1) have "foldl (packStep fits) (pg, cur @ [x]) xs = (pg', cur')"
      by (simp add: packStep_pair)
    from Cons.IH[OF this Cons.prems(2)] True Cons.prems(4) show ?thesis by simp
  next
    case False
    with Cons.prems(1) have f: "foldl (packStep fits) (pg @ [cur], [x]) xs = (pg', cur')"
      by (simp add: packStep_pair)
    from False Cons.prems(4) have "cur \<noteq> []" by auto
    with Cons.prems(3) have "fits cur" by simp
    with \<open>cur \<noteq> []\<close> Cons.prems(2) have "goodGroups fits (pg @ [cur])"
      by (simp add: goodGroups_def)
    from Cons.IH[OF f this] Cons.prems(4) show ?thesis by simp
  qed
qed

lemma processExtensionGroup_mset:
  "mset (concat (processExtensionGroup fits pg ext)) = mset (concat pg) + mset ext"
proof (cases "fits ext")
  case True then show ?thesis by (simp add: processExtensionGroup_def)
next
  case False
  obtain pg' cur' where p: "foldl (packStep fits) (pg, []) (sort_key patchTokenLength ext) = (pg', cur')"
    by (cases "foldl (packStep fits) (pg, []) (sort_key patchTokenLength ext)")
  from pack_concat[OF p] have "mset (concat pg' @ cur') = mset (concat pg @ sort_key patchTokenLength ext)"
    by simp
  then have "mset (concat pg') + mset cur' = mset (concat pg) + mset ext" by simp
  with False p show ?thesis by (auto simp: processExtensionGroup_def)
qed

lemma processExtensionGroup_good:
  assumes "goodGroups fits pg" "ext \<noteq> []" "\<forall>x \<in> set ext. fits [x]"
  shows "goodGroups fits (processExtensionGroup fits pg ext)"
proof (cases "fits ext")
  case True with assms show ?thesis by (simp add: processExtensionGroup_def goodGroups_def)
next
  case False
  obtain pg' cur' where p: "foldl (packStep fits) (pg, []) (sort_key patchTokenLength ext) = (pg', cur')"
    by (cases "foldl (packStep fits) (pg, []) (sort_key patchTokenLength ext)")
  from assms(3) have "\<forall>x \<in> set (sort_key patchTokenLength ext). fits [x]" by simp
  from pack_good[OF p assms(1) _ this] have "goodGroups fits pg' \<and> (cur' = [] \<or> fits cur')" by simp
  with False p show ?thesis by (auto simp: processExtensionGroup_def goodGroups_def)
qed

lemma ext_fold_mset:
  "mset (concat (foldl (processExtensionGroup fits) pg exts)) = mset (concat pg) + mset (concat exts)"
  by (induction exts arbitrary: pg) (simp_all add: processExtensionGroup_mset)

lemma ext_fold_good:
  "goodGroups fits pg \<Longrightarrow> \<forall>e \<in> set exts. e \<noteq> [] \<and> (\<forall>x \<in> set e. fits [x]) \<Longrightarrow>
   goodGroups fits (foldl (processExtensionGroup fits) pg exts)"
  by (induction exts arbitrary: pg) (simp_all add: processExtensionGroup_good)

lemma processWithinLimitFiles_mset:
  "mset (concat (processWithinLimitFiles enc files pb cb)) =
     (if withinLimit enc pb cb files then mset files
      else mset (filter (\<lambda>f. extensionOf f \<noteq> []) files))"
  by (simp add: processWithinLimitFiles_def Let_def ext_fold_mset groupFilesByExtension_mset)


lemma processWithinLimitFiles_good:
  assumes "files \<noteq> []" "\<forall>f \<in> set files. withinLimit enc pb cb [f]"
  shows "goodGroups (withinLimit enc pb cb) (processWithinLimitFiles enc files pb cb)"
proof (cases "withinLimit enc pb cb files")
  case True
  with assms(1) show ?thesis by (simp add: processWithinLimitFiles_def goodGroups_def)
next
  case False
  have "\<forall>e \<in> set (map_values (groupFilesByExtension files)). e \<noteq> [] \<and> (\<forall>x \<in> set e. withinLimit enc pb cb [x])"
  proof
    fix e assume e: "e \<in> set (map_values (groupFilesByExtension files))"
    then have "set e \<subseteq> set (concat (map_values (groupFilesByExtension files)))" by auto
    also have "\<dots> \<subseteq> set files"
    proof -
      have "set_mset (mset (concat (map_values (groupFilesByExtension files)))) \<subseteq> set files"
        unfolding groupFilesByExtension_mset by auto
      then show ?thesis by simp
    qed
    finally show "e \<noteq> [] \<and> (\<forall>x \<in> set e. withinLimit enc pb cb [x])"
      using groupFilesByExtension_nonempty[OF e] assms(2) by auto
  qed
  from ext_fold_good[OF _ this, of "[]"] False show ?thesis
    by (simp add: processWithinLimitFiles_def goodGroups_def)
qed

lemma stripRemovedLines_filename [simp]:
  "PRFile.filename (stripRemovedLines f) = PRFile.filename f"
  by (simp add: stripRemovedLines_def Let_def)

lemma extensionOf_strip [simp]: "extensionOf (stripRemovedLines f) = extensionOf f"
  by (simp add: extensionOf_def)

lemma extensionOf_length [simp]:
  "extensionOf (f\<lparr>patchTokenLength := n\<rparr>) = extensionOf f"
  by (simp add: extensionOf_def)

lemma processOutsideLimitFiles_mset:
  assumes "\<forall>f \<in> set files. extensionOf f \<noteq> []"
  shows "mset (concat (processOutsideLimitFiles enc files pb cb))
           + mset (exceedingLimits enc files pb cb)
         = mset (map stripRemovedLines files)"
proof (cases "files = []")
  case True
  then show ?thesis by (simp add: processOutsideLimitFiles_def exceedingLimits_def)
next
  case False
  let ?fits = "withinLimit enc pb cb"
  let ?files' = "map stripRemovedLines files"
  show ?thesis
  proof (cases "?fits ?files'")
    case True
    with False show ?thesis
      by (simp add: processOutsideLimitFiles_def exceedingLimits_def Let_def)
  next
    case nofit: False
    let ?within = "filter (\<lambda>file. ?fits [file]) ?files'"
    have ext: "filter (\<lambda>f. extensionOf f \<noteq> []) ?within = ?within"
      by (rule iffD2[OF filter_id_conv]) (use assms in auto)
    have "mset (concat (processWithinLimitFiles enc ?within pb cb)) = mset ?within"
      by (simp only: processWithinLimitFiles_mset ext if_cancel)
    moreover have "mset ?within + mset (filter (\<lambda>file. \<not> ?fits [file]) ?files') = mset ?files'"
      by (simp only: mset_filter multiset_partition[symmetric])
    ultimately show ?thesis using False nofit
      by (simp add: processOutsideLimitFiles_def exceedingLimits_def Let_def)
  qed
qed

lemma processWithinLimitFiles_Nil:
  "processWithinLimitFiles enc [] pb cb = (if withinLimit enc pb cb [] then [[]] else [])"
  by (simp add: processWithinLimitFiles_def Let_def groupFilesByExtension_def map_values_def)

lemma processWithinLimitFiles_fits:
  assumes "\<forall>f \<in> set files. withinLimit enc pb cb [f]"
    and "g \<in> set (processWithinLimitFiles enc files pb cb)"
  shows "withinLimit enc pb cb g"
proof (cases "files = []")
  case True
  with assms(2) show ?thesis by (simp add: processWithinLimitFiles_Nil split: if_splits)
next
  case False
  from processWithinLimitFiles_good[OF False assms(1)] assms(2) show ?thesis
    by (simp add: goodGroups_def)
qed

lemma processWithinLimitFiles_nonempty:
  assumes "files \<noteq> []" "\<forall>f \<in> set files. withinLimit enc pb cb [f]"
    and "g \<in> set (processWithinLimitFiles enc files pb cb)"
  shows "g \<noteq> []"
  using processWithinLimitFiles_good[OF assms(1,2)] assms(3) by (simp add: goodGroups_def)

lemma processOutsideLimitFiles_fits:
  assumes "g \<in> set (processOutsideLimitFiles enc files pb cb)"
  shows "withinLimit enc pb cb g"
proof (cases "files = []")
  case True
  with assms show ?thesis by (simp add: processOutsideLimitFiles_def)
next
  case False
  show ?thesis
  proof (cases "withinLimit enc pb cb (map stripRemovedLines files)")
    case True
    with False assms show ?thesis by (simp add: processOutsideLimitFiles_def Let_def)
  next
    case nofit: False
    let ?within = "filter (\<lambda>file. withinLimit enc pb cb [file]) (map stripRemovedLines files)"
    from False nofit assms have "g \<in> set (processWithinLimitFiles enc ?within pb cb)"
      by (simp add: processOutsideLimitFiles_def Let_def)
    moreover have "\<forall>f \<in> set ?within. withinLimit enc pb cb [f]" by simp
    ultimately show ?thesis by (rule processWithinLimitFiles_fits[rotated])
  qed
qed



lemma filteredWithLength_extension:
  "map extensionOf (filteredWithLength svc files)
     = map extensionOf (filter (\<lambda>f. filterFile (PRFile.filename f)) files)"
  by (simp add: filteredWithLength_def Let_def comp_def)


lemma reviewGroups_fits:
  assumes "g \<in> set (reviewGroups svc files cb)"
  shows "withinLimit (encodeChat svc) (patchBuilderOf svc) cb g"
proof -
  from assms consider
    "g \<in> set (processWithinLimitFiles (encodeChat svc) (patchesWithinModelLimit svc files cb)
        (patchBuilderOf svc) cb)"
    | "g \<in> set (processOutsideLimitFiles (encodeChat svc) (patchesOutsideModelLimit svc files cb)
        (patchBuilderOf svc) cb)"
    by (auto simp: reviewGroups_def Let_def)
  then show ?thesis
  proof cases
    case 1
    moreover have "\<forall>f \<in> set (patchesWithinModelLimit svc files cb).
       withinLimit (encodeChat svc) (patchBuilderOf svc) cb [f]"
      by (simp add: patchesWithinModelLimit_def)
    ultimately show ?thesis by (rule processWithinLimitFiles_fits[rotated])
  next
    case 2
    then show ?thesis by (rule processOutsideLimitFiles_fits)
  qed
qed

lemma reviewGroups_coverage:
  assumes "\<forall>f \<in> set files. filterFile (PRFile.filename f) \<longrightarrow> extensionOf f \<noteq> []"
  shows "image_mset PRFile.filename (mset (concat (reviewGroups svc files cb)))
         + image_mset PRFile.filename
             (mset (exceedingLimits (encodeChat svc) (patchesOutsideModelLimit svc files cb)
                (patchBuilderOf svc) cb))
         = image_mset PRFile.filename (mset (filter (\<lambda>f. filterFile (PRFile.filename f)) files))"
proof -
  let ?enc = "encodeChat svc" and ?pb = "patchBuilderOf svc"
  let ?F = "filteredWithLength svc files"
  let ?W = "patchesWithinModelLimit svc files cb" and ?O = "patchesOutsideModelLimit svc files cb"
  have extF: "\<forall>f \<in> set ?F. extensionOf f \<noteq> []"
    using assms by (auto simp: filteredWithLength_def Let_def)
  then have extW: "filter (\<lambda>f. extensionOf f \<noteq> []) ?W = ?W"
    by (intro iffD2[OF filter_id_conv]) (auto simp: patchesWithinModelLimit_def)
  have extO: "\<forall>f \<in> set ?O. extensionOf f \<noteq> []"
    using extF by (auto simp: patchesOutsideModelLimit_def)
  have w: "mset (concat (processWithinLimitFiles ?enc ?W ?pb cb)) = mset ?W"
    by (simp only: processWithinLimitFiles_mset extW if_cancel)
  have o: "mset (concat (processOutsideLimitFiles ?enc ?O ?pb cb))
           + mset (exceedingLimits ?enc ?O ?pb cb) = mset (map stripRemovedLines ?O)"
    by (rule processOutsideLimitFiles_mset[OF extO])
  have so: "image_mset PRFile.filename (mset (map stripRemovedLines ?O))
      = image_mset PRFile.filename (mset ?O)"
    by (simp add: multiset.map_comp comp_def)
  have part: "mset ?W + mset ?O = mset ?F"
    unfolding patchesWithinModelLimit_def patchesOutsideModelLimit_def
    by (simp only: mset_filter multiset_partition[symmetric])
  have names: "image_mset PRFile.filename (mset ?F)
      = image_mset PRFile.filename (mset (filter (\<lambda>f. filterFile (PRFile.filename f)) files))"
    by (simp add: filteredWithLength_def Let_def multiset.map_comp comp_def)
  have "image_mset PRFile.filename (mset (concat (reviewGroups svc files cb)))
         + image_mset PRFile.filename (mset (exceedingLimits ?enc ?O ?pb cb))
      = image_mset PRFile.filename (mset (concat (processWithinLimitFiles ?enc ?W ?pb cb)))
        + image_mset PRFile.filename (mset (concat (processOutsideLimitFiles ?enc ?O ?pb cb))
            + mset (exceedingLimits ?enc ?O ?pb cb))"
    by (simp add: reviewGroups_def Let_def)
  also have "\<dots> = image_mset PRFile.filename (mset ?W) + image_mset PRFile.filename (mset ?O)"
    by (simp only: w o so)
  also have "\<dots> = image_mset PRFile.filename (mset ?F)"
    by (simp only: part[symmetric] image_mset_union)
  finally show ?thesis by (simp only: names)
qed

section \<open>Properties of the inline fix\<close>

lemma nths_range: "nths xs {i. a \<le> i \<and> i < b} = take (b - a) (drop a xs)"
proof -
  have "(+) a ` {..<b - a} = {i. a \<le> i \<and> i < b}"
  proof (rule set_eqI)
    fix i
    show "i \<in> (+) a ` {..<b - a} \<longleftrightarrow> i \<in> {i. a \<le> i \<and> i < b}"
    proof
      assume "i \<in> (+) a ` {..<b - a}"
      then show "i \<in> {i. a \<le> i \<and> i < b}" by auto
    next
      assume "i \<in> {i. a \<le> i \<and> i < b}"
      then have "i = a + (i - a)" "i - a < b - a" by auto
      then show "i \<in> (+) a ` {..<b - a}" by blast
    qed
  qed
  then have "nths xs {i. a \<le> i \<and> i < b} = nths (drop a xs) {..<b - a}"
    by (simp only: nths_drop)
  then show ?thesis by simp
qed

lemma js_slice_lines:
  assumes "1 \<le> a" "0 \<le> b"
  shows "js_slice xs (a - 1) b = nths xs {i. a \<le> int i + 1 \<and> int i + 1 \<le> b}"
proof -
  have "{i. a \<le> int i + 1 \<and> int i + 1 \<le> b} = {i. nat (a - 1) \<le> i \<and> i < nat b}"
    using assms by auto
  then have r: "nths xs {i. a \<le> int i + 1 \<and> int i + 1 \<le> b}
       = take (nat b - nat (a - 1)) (drop (nat (a - 1)) xs)"
    by (simp only: nths_range)
  show ?thesis
  proof (cases "a - 1 \<ge> int (length xs)")
    case True
    with assms show ?thesis unfolding r by (simp add: js_slice_def Let_def min_def)
  next
    case False
    then have k: "min (a - 1) (int (length xs)) = a - 1" by simp
    show ?thesis
    proof (cases "b \<ge> int (length xs)")
      case True
      with False assms show ?thesis unfolding r
        by (simp add: js_slice_def Let_def min_def)
    next
      case False
      with \<open>\<not> a - 1 \<ge> int (length xs)\<close> assms show ?thesis unfolding r
        by (simp add: js_slice_def Let_def min_def nat_diff_distrib')
    qed
  qed
qed

lemma linesInRange_nths:
  "linesInRange contents a b =
     join ''\<newline>''
       (nths (split_on CHR ''\<newline>'' contents) {i. a \<le> int i + 1 \<and> int i + 1 \<le> b})"
proof -
  have "(\<lambda>p. snd p \<in> {i. a \<le> int i + 1 \<and> int i + 1 \<le> b})
      = (\<lambda>(line :: string, i). a \<le> int i + 1 \<and> int i + 1 \<le> b)"
    by (auto simp: fun_eq_iff)
  then show ?thesis by (simp add: linesInRange_def nths_def Let_def)
qed

lemma isCodeSuggestionNew_noop:
  assumes "1 \<le> line_start fix" "0 \<le> line_end fix"
    and "trim (linesInRange contents (line_start fix) (line_end fix)) = trim (correction fix)"
  shows "\<not> isCodeSuggestionNew contents fix"
  using assms(3) js_slice_lines[OF assms(1,2), of "split_on CHR ''\<newline>'' contents"]
  by (simp add: isCodeSuggestionNew_def linesInRange_nths Let_def)

lemma codeFix_contents:
  "codeFix svc suggestion file = Some fix \<Longrightarrow> \<exists>contents. current_contents file = Some contents"
  by (auto simp: codeFix_def split: option.splits)

section \<open>Properties of the line renumbering\<close>





















section \<open>Properties of the issue link\<close>

lemma generateGithubIssueUrl_placeholder:
  "\<not> matchesRepoPattern owner \<or> \<not> matchesRepoPattern repoName \<Longrightarrow>
   generateGithubIssueUrl owner repoName t b c = placeholderLink"
  by (auto simp: generateGithubIssueUrl_def)

lemma encodeChar_length: "1 \<le> length (encodeChar c)"
  by (simp add: encodeChar_def Let_def percentByte_def)

lemma encodeURIComponent_length: "length s \<le> length (encodeURIComponent s)"
proof (induction s)
  case Nil then show ?case by (simp add: encodeURIComponent_def)
next
  case (Cons c s)
  then show ?case using encodeChar_length[of c] by (simp add: encodeURIComponent_def)
qed

lemma encodeURIComponent_unreserved:
  "\<forall>c \<in> set s. isUnreserved c \<Longrightarrow> encodeURIComponent s = s"
  by (induction s) (simp_all add: encodeURIComponent_def encodeChar_def Let_def)

lemma unreserved_a: "isUnreserved CHR ''a''" by code_simp
lemma unreserved_t: "isUnreserved CHR ''t''" by code_simp
lemma repo_o: "matchesRepoPattern ''o''" by code_simp
lemma repo_r: "matchesRepoPattern ''r''" by code_simp

lemma generateGithubIssueUrl_long:
  assumes "matchesRepoPattern owner" "matchesRepoPattern repoName"
    and "2048 \<le> length b" 
  shows "\<exists>u. generateGithubIssueUrl owner repoName t b c = ''[Create Issue]('' @ u @ '')'' \<and> 2048 < length u"
proof -
  from assms(1,2) have ne: "owner \<noteq> []" "repoName \<noteq> []" by (auto simp: matchesRepoPattern_def)
  have "2048 \<le> length (take 5000 b)" using assms(3) by simp
  then have "2048 \<le> length (encodeURIComponent (take 5000 b))"
    using encodeURIComponent_length[of "take 5000 b"] by linarith
  then show ?thesis using assms(1,2) ne
    by (auto simp: generateGithubIssueUrl_def Let_def)
qed

lemma generateGithubIssueUrl_capped:
  assumes "matchesRepoPattern owner" "matchesRepoPattern repoName"
    and "length owner + length repoName + length (encodeURIComponent (take 200 t))
          + length (encodeURIComponent (take 5000 b)) + 44 \<le> 2048"
  shows "\<exists>u. generateGithubIssueUrl owner repoName t b c = ''[Create Issue]('' @ u @ '')'' \<and> length u \<le> 2048"
proof -
  from assms(1,2) have ne: "owner \<noteq> []" "repoName \<noteq> []" by (auto simp: matchesRepoPattern_def)
  show ?thesis using assms ne
    by (auto simp: generateGithubIssueUrl_def Let_def)
qed

section \<open>Properties of the code field\<close>

lemma isSpace_newline: "isSpace CHR ''\<newline>''" by code_simp

lemma trimStart_Nil_iff: "trimStart s = [] \<longleftrightarrow> (\<forall>c \<in> set s. isSpace c)"
  by (simp add: trimStart_def dropWhile_eq_Nil_conv)

lemma trimEnd_Nil_iff: "trimEnd s = [] \<longleftrightarrow> (\<forall>c \<in> set s. isSpace c)"
  by (simp add: trimEnd_def dropWhile_eq_Nil_conv)

lemma set_trimStart: "set (trimStart s) \<subseteq> set s"
  by (simp add: trimStart_def set_dropWhileD subsetI)

lemma trim_Nil_iff: "trim s = [] \<longleftrightarrow> (\<forall>c \<in> set s. isSpace c)"
proof
  assume "trim s = []"
  then have a: "\<forall>c \<in> set (trimStart s). isSpace c" by (simp add: trim_def trimEnd_Nil_iff)
  show "\<forall>c \<in> set s. isSpace c"
  proof (cases "trimStart s")
    case Nil
    then show ?thesis by (simp add: trimStart_Nil_iff)
  next
    case (Cons x xs)
    then have "\<not> isSpace x" unfolding trimStart_def by (metis hd_dropWhile list.sel(1) list.discI)
    with a Cons show ?thesis by simp
  qed
next
  assume "\<forall>c \<in> set s. isSpace c"
  then have "trimStart s = []" by (simp add: trimStart_Nil_iff)
  then show "trim s = []" by (simp add: trim_def trimEnd_def)
qed














section \<open>Properties of the structured parser\<close>
















section \<open>Properties of the fallback parser\<close>

lemma blockSuggestion_None_iff:
  "blockSuggestion mf sp ss reply m = None \<longleftrightarrow> trim (matchCode m) = []"
proof (cases "trim (matchCode m) = []")
  case True
  then show ?thesis unfolding blockSuggestion_def Let_def by simp
next
  case False
  then have "matchCode m \<noteq> []" by (auto simp: trim_Nil_iff)
  with False show ?thesis unfolding blockSuggestion_def Let_def by simp
qed

lemma blockSuggestion_Some:
  assumes "blockSuggestion mf sp ss reply m = Some s"
  shows "type s = ''improvement'' \<and>
    code s = ''```'' @ (case matchLanguage m of None \<Rightarrow> ''js'' | Some l \<Rightarrow> l) @ ''\<newline>''
              @ matchCode m @ ''\<newline>```''"
proof -
  from assms have ne: "trim (matchCode m) \<noteq> []"
    using blockSuggestion_None_iff[of mf sp ss reply m] by simp
  then have "matchCode m \<noteq> []" by (auto simp: trim_Nil_iff)
  with ne assms show ?thesis unfolding blockSuggestion_def Let_def by auto
qed


lemma map_filter_length:
  "length (List.map_filter f xs) = length (filter (\<lambda>x. f x \<noteq> None) xs)"
  by (simp add: List.map_filter_def)

lemma map_filter_blocks:
  "map code (List.map_filter (blockSuggestion mf sp ss reply) ms)
     = map (\<lambda>m. ''```'' @ (case matchLanguage m of None \<Rightarrow> ''js'' | Some l \<Rightarrow> l) @ ''\<newline>''
              @ matchCode m @ ''\<newline>```'')
         (filter (\<lambda>m. trim (matchCode m) \<noteq> []) ms)"
proof (induction ms)
  case Nil then show ?case by (simp add: List.map_filter_def)
next
  case (Cons m ms)
  show ?case
  proof (cases "blockSuggestion mf sp ss reply m")
    case None
    then have "trim (matchCode m) = []" by (simp add: blockSuggestion_None_iff)
    with None Cons show ?thesis by (simp add: List.map_filter_def)
  next
    case (Some s)
    then have "trim (matchCode m) \<noteq> []"
      using blockSuggestion_None_iff[of mf sp ss reply m] by simp
    with Some Cons blockSuggestion_Some[OF Some] show ?thesis
      by (simp add: List.map_filter_def)
  qed
qed

lemma scan_empty_block:
  "scanCodeBlocks 0 ''```\<newline>\<newline>```'' = [\<lparr>matchIndex = 0, matchLanguage = None, matchCode = []\<rparr>]"
  by code_simp

lemma hasFence_indexOf: "indexOf fence s = None \<longleftrightarrow> \<not> hasFence s"
  by (induction s rule: hasFence.induct) (auto simp: startsWith_def fence_def)

lemma indexOf_lead:
  "\<not> hasFence (p @ ''``'') \<Longrightarrow> indexOf fence (p @ fence @ r) = Some (length p)"
proof (induction p)
  case Nil
  then show ?case by (simp add: startsWith_def fence_def)
next
  case (Cons x xs)
  have "\<not> startsWith (x # xs @ fence @ r) fence \<and> \<not> hasFence (xs @ ''``'')"
  proof (cases xs)
    case Nil
    with Cons.prems show ?thesis by (auto simp: startsWith_def fence_def)
  next
    case (Cons a ys)
    with Cons.prems show ?thesis by (cases ys) (auto simp: startsWith_def fence_def)
  qed
  with Cons.IH show ?case by simp
qed

lemma hasFence_lead:
  assumes "\<not> hasFence p" "p = [] \<or> last p \<noteq> CHR 0x60"
  shows "\<not> hasFence (p @ ''``'')"
  using assms
proof (induction p rule: hasFence.induct)
  case (1 a b c r)
  then show ?case by (cases r) auto
qed auto

lemma hasFence_Cons: "hasFence ys \<Longrightarrow> hasFence (x # ys)"
  by (cases ys rule: hasFence.cases) auto

lemma hasFence_suffix: "hasFence ys \<Longrightarrow> hasFence (xs @ ys)"
  by (induction xs) (simp_all add: hasFence_Cons)

lemma hasFence_line:
  "\<not> hasFence b \<Longrightarrow> \<not> hasFence (b @ ''\<newline>``'')"
proof (induction b rule: hasFence.induct)
  case (1 a b c r)
  then show ?case by auto
qed auto

lemma hasFence_dropWhile:
  "\<not> hasFence (xs @ ys) \<Longrightarrow> \<not> hasFence (dropWhile P xs @ ys)"
proof -
  assume a: "\<not> hasFence (xs @ ys)"
  have "xs @ ys = takeWhile P xs @ (dropWhile P xs @ ys)" by simp
  with a hasFence_suffix[of "dropWhile P xs @ ys" "takeWhile P xs"] show ?thesis by metis
qed

lemma backtick_class: "\<not> isWord CHR 0x60" "\<not> isSpace CHR 0x60" "\<not> isWord CHR ''\<newline>''"
  by code_simp+

lemma dropWhile_space_fence:
  "dropWhile isSpace (xs @ fence @ r) = dropWhile isSpace xs @ fence @ r"
proof (cases "\<forall>x \<in> set xs. isSpace x")
  case True
  then have "dropWhile isSpace xs = []" by simp
  moreover from True have "dropWhile isSpace (xs @ fence @ r) = dropWhile isSpace (fence @ r)"
    by (simp add: dropWhile_append)
  ultimately show ?thesis by (simp add: fence_def backtick_class)
next
  case False
  then show ?thesis by (auto simp: dropWhile_append)
qed

lemma execCodeBlock_block:
  assumes "wellFenced b"
  shows "execCodeBlock (renderBlock b @ rest) =
     Some (length (blockLead b),
           if blockTag b = [] then None else Some (blockTag b),
           trimStart (blockBody b @ ''\<newline>''),
           rest)"
proof -
  let ?lead = "blockLead b" and ?tag = "blockTag b" and ?body = "blockBody b"
  let ?after = "?tag @ ''\<newline>'' @ ?body @ ''\<newline>'' @ fence @ rest"
  from assms have w: "\<not> hasFence ?lead" "?lead = [] \<or> last ?lead \<noteq> CHR 0x60"
    "list_all isWord ?tag" "\<not> hasFence ?body"
    by (simp_all add: wellFenced_def)
  have rendered: "renderBlock b @ rest = ?lead @ fence @ ?after"
    by (simp add: renderBlock_def fence_def)
  have i: "indexOf fence (?lead @ fence @ ?after) = Some (length ?lead)"
    by (rule indexOf_lead[OF hasFence_lead[OF w(1,2)]])
  have opened: "drop (length ?lead + 3) (?lead @ fence @ ?after) = ?after"
    by (simp add: fence_def)
  from w(3) have word: "takeWhile isWord ?after = ?tag"
    by (simp add: takeWhile_append2 list_all_iff backtick_class)
  from w(3) have rest1: "dropWhile isWord ?after = ''\<newline>'' @ ?body @ ''\<newline>'' @ fence @ rest"
    by (simp add: dropWhile_append list_all_iff backtick_class)
  have sp: "dropWhile isSpace (''\<newline>'' @ ?body @ ''\<newline>'' @ fence @ rest)
      = trimStart (?body @ ''\<newline>'') @ fence @ rest"
    using dropWhile_space_fence[of "?body @ ''\<newline>''" rest]
    by (simp add: isSpace_newline trimStart_def)
  have "\<not> hasFence ((?body @ ''\<newline>'') @ ''``'')"
    using hasFence_line[OF w(4)] by simp
  from hasFence_dropWhile[OF this, of isSpace]
  have j: "indexOf fence (trimStart (?body @ ''\<newline>'') @ fence @ rest)
      = Some (length (trimStart (?body @ ''\<newline>'')))"
    unfolding trimStart_def by (rule indexOf_lead)
  show ?thesis
    unfolding execCodeBlock_def rendered i option.case Let_def opened word rest1 sp j
    by (simp add: fence_def)
qed

lemma replyText_Cons: "replyText (b # bs) t = renderBlock b @ replyText bs t"
  by (simp add: replyText_def)

lemma scanCodeBlocks_block:
  assumes "wellFenced b"
  shows "scanCodeBlocks off (replyText (b # bs) t) =
     \<lparr>matchIndex = off + length (blockLead b),
      matchLanguage = (if blockTag b = [] then None else Some (blockTag b)),
      matchCode = trimStart (blockBody b @ ''\<newline>'')\<rparr>
     # scanCodeBlocks (off + length (renderBlock b)) (replyText bs t)"
  unfolding replyText_Cons
  by (subst scanCodeBlocks.simps) (simp add: execCodeBlock_block[OF assms])

lemma scanCodeBlocks_trailing:
  "\<not> hasFence t \<Longrightarrow> scanCodeBlocks off t = []"
  by (subst scanCodeBlocks.simps) (simp add: execCodeBlock_def hasFence_indexOf[symmetric])

lemma scanCodeBlocks_reply:
  assumes "list_all wellFenced bs" "\<not> hasFence t"
  shows "map (\<lambda>m. (matchLanguage m, matchCode m)) (scanCodeBlocks off (replyText bs t))
     = map (\<lambda>b. (if blockTag b = [] then None else Some (blockTag b),
                  trimStart (blockBody b @ ''\<newline>''))) bs"
  using assms(1)
proof (induction bs arbitrary: off)
  case Nil
  with assms(2) show ?case by (simp add: replyText_def scanCodeBlocks_trailing)
next
  case (Cons b bs)
  then have "wellFenced b" "list_all wellFenced bs" by simp_all
  with Cons.IH show ?case by (simp add: scanCodeBlocks_block)
qed

lemma trim_body_line: "trim (trimStart (s @ ''\<newline>'')) \<noteq> [] \<longleftrightarrow> nonBlank s"
proof -
  have "trim (trimStart (s @ ''\<newline>'')) = [] \<longleftrightarrow> trimStart (s @ ''\<newline>'') = []"
    unfolding trim_Nil_iff trimStart_Nil_iff
    by (metis trimStart_Nil_iff trimStart_def dropWhile_idem)
  then show ?thesis
    by (auto simp: trimStart_Nil_iff nonBlank_def list_ex_iff isSpace_newline)
qed

lemma trimStart_body_line: "nonBlank s \<Longrightarrow> trimStart (s @ ''\<newline>'') = trimStart s @ ''\<newline>''"
  by (auto simp: trimStart_def nonBlank_def list_ex_iff dropWhile_append)

section \<open>Properties of the review\<close>

lemma promiseAll_Inl: "p \<in> set ps \<Longrightarrow> p = Inl e \<Longrightarrow> \<exists>e'. promiseAll ps = Inl e'"
proof (induction ps)
  case Nil then show ?case by simp
next
  case (Cons q qs)
  then show ?case by (cases q) (auto split: sum.splits)
qed

text \<open>
  With a tokenizer and patch strategies that do not throw, \<open>reviewChanges\<close> always
  returns: what its requests and its response builder throw is caught.
\<close>

lemma reviewChanges_returns: "\<exists>r. reviewChanges svc files cb rb = Inr r"
  by (simp add: reviewChanges_def Let_def split: sum.splits)

lemma reviewChangesRetry_first:
  "reviewChangesRetry svc files (b # builders)
     = reviewChanges svc files (convoBuilder b) (responseBuilder b)"
  using reviewChanges_returns[of svc files "convoBuilder b" "responseBuilder b"]
  by auto

lemma reviewChanges_request_fails:
  assumes "g \<in> set (reviewGroups svc files cb)"
    and "reviewFiles svc g (patchBuilderOf svc) cb = Inl e"
  shows "reviewChanges svc files cb rb =
     Inr \<lparr>comment = ''Error occurred during review process'', structuredComments = []\<rparr>"
proof -
  have "reviewFiles svc g (patchBuilderOf svc) cb
      \<in> set (map (\<lambda>patchGroup. reviewFiles svc patchGroup (patchBuilderOf svc) cb)
               (reviewGroups svc files cb))"
    using assms(1) by simp
  from promiseAll_Inl[OF this assms(2)] show ?thesis
    by (auto simp: reviewChanges_def Let_def)
qed


lemma reviewGroups_prefilter:
  "reviewGroups svc (filter (\<lambda>f. filterFile (PRFile.filename f)) files) cb
     = reviewGroups svc files cb"
  by (simp add: reviewGroups_def patchesWithinModelLimit_def patchesOutsideModelLimit_def
      filteredWithLength_def Let_def)

lemma reviewChanges_prefilter:
  "reviewChanges svc (filter (\<lambda>f. filterFile (PRFile.filename f)) files) cb rb
     = reviewChanges svc files cb rb"
  by (simp add: reviewChanges_def reviewGroups_prefilter)

lemma reviewChangesRetry_prefilter:
  "reviewChangesRetry svc (filter (\<lambda>f. filterFile (PRFile.filename f)) files) bs
     = reviewChangesRetry svc files bs"
  by (induction bs) (simp_all add: reviewChanges_prefilter split: sum.splits)


lemma changedFile_filename [simp]:
  "PRFile.filename (changedFile svc payload f) = PRFile.filename f"
  by (auto simp: changedFile_def preprocessFile_def split: sum.splits)







section \<open>The examples, evaluated\<close>

lemma limit_of_default_model: "map_of ModelsToTokenLimits GROQ_MODEL = Some 128000"
  by (simp add: ModelsToTokenLimits_def GROQ_MODEL_def)

lemma exampleServices_sel:
  "encodeChat exampleServices = charTokens"
  "patchBuilderOf exampleServices = examplePatch"
  "encode exampleServices = length"
  "generateChatCompletion exampleServices = failingCompletion"
  by (simp_all add: exampleServices_def patchBuilderOf_def buildPatchPrompt_def fun_eq_iff)

lemma fits_example:
  "withinLimit charTokens examplePatch examplePrompt fs
     \<longleftrightarrow> 31 + length (join ''\<newline>'' (map examplePatch fs)) < 128000"
  by (simp add: withinLimit_def isConversationWithinLimit_def limit_of_default_model
      constructPrompt_def examplePrompt_def getXMLReviewPrompt_def charTokens_def)

lemma filterFile_exampleFile: "filterFile ''src/a.ts''"
  by code_simp

lemma reviewGroups_exampleFile:
  "reviewGroups exampleServices [exampleFile] examplePrompt
     = [[exampleFile\<lparr>patchTokenLength := 34\<rparr>]]"
  by (simp add: reviewGroups_def patchesWithinModelLimit_def patchesOutsideModelLimit_def
      filteredWithLength_def exampleFile_def filterFile_exampleFile exampleServices_sel
      getTokenLength_def examplePatch_def fits_example
      processWithinLimitFiles_def processOutsideLimitFiles_def Let_def)

lemma length_largePatch: "length largePatch = 70000"
  by (simp add: largePatch_def)

lemma filterFile_notes: "filterFile ''docs/notes.''"
  by code_simp

lemma filterFile_code: "filterFile ''src/b.ts''"
  by code_simp

lemma toLowerCase_Nil: "toLowerCase [] = []"
  by (simp add: toLowerCase_def)

lemma toLowerCase_ts: "toLowerCase ''ts'' = ''ts''"
  by code_simp

lemma notesFile_fits:
  "withinLimit charTokens examplePatch examplePrompt [notesFile\<lparr>patchTokenLength := n\<rparr>]"
  by (simp add: fits_example examplePatch_def notesFile_def length_largePatch)

lemma codeFile_fits:
  "withinLimit charTokens examplePatch examplePrompt [codeFile\<lparr>patchTokenLength := n\<rparr>]"
  by (simp add: fits_example examplePatch_def codeFile_def length_largePatch)

lemma both_do_not_fit:
  "\<not> withinLimit charTokens examplePatch examplePrompt
       [notesFile\<lparr>patchTokenLength := n\<rparr>, codeFile\<lparr>patchTokenLength := m\<rparr>]"
  by (simp add: fits_example examplePatch_def codeFile_def notesFile_def length_largePatch)

lemma filteredWithLength_example:
  "filteredWithLength exampleServices [notesFile, codeFile] =
     [notesFile\<lparr>patchTokenLength := 70016\<rparr>, codeFile\<lparr>patchTokenLength := 70013\<rparr>]"
proof -
  have "PRFile.filename notesFile = ''docs/notes.''" "PRFile.filename codeFile = ''src/b.ts''"
    by (simp_all add: notesFile_def codeFile_def)
  moreover have "length (examplePatch notesFile) = 70016" "length (examplePatch codeFile) = 70013"
    by (simp_all add: examplePatch_def notesFile_def codeFile_def length_largePatch)
  ultimately show ?thesis
    by (simp add: filteredWithLength_def exampleServices_sel getTokenLength_def
        filterFile_notes filterFile_code)
qed

lemma groupFilesByExtension_example:
  "groupFilesByExtension
     [notesFile\<lparr>patchTokenLength := 70016\<rparr>, codeFile\<lparr>patchTokenLength := 70013\<rparr>]
   = [(''ts'', [codeFile\<lparr>patchTokenLength := 70013\<rparr>])]"
proof -
  have "PRFile.filename notesFile = ''docs/notes.''" "PRFile.filename codeFile = ''src/b.ts''"
    by (simp_all add: notesFile_def codeFile_def)
  then show ?thesis
    by (simp add: groupFilesByExtension_def toLowerCase_Nil toLowerCase_ts map_has_def
        map_get_def Let_def)
qed

lemma reviewGroups_example:
  "reviewGroups exampleServices [notesFile, codeFile] examplePrompt
     = [[codeFile\<lparr>patchTokenLength := 70013\<rparr>]]"
  by (simp add: reviewGroups_def patchesWithinModelLimit_def patchesOutsideModelLimit_def
      filteredWithLength_example exampleServices_sel notesFile_fits codeFile_fits both_do_not_fit
      processWithinLimitFiles_def processOutsideLimitFiles_def Let_def
      groupFilesByExtension_example map_values_def processExtensionGroup_def)

lemma exceedingLimits_example:
  "exceedingLimits (encodeChat exampleServices)
     (patchesOutsideModelLimit exampleServices [notesFile, codeFile] examplePrompt)
     (patchBuilderOf exampleServices) examplePrompt = []"
  by (simp add: patchesOutsideModelLimit_def filteredWithLength_example exampleServices_sel
      notesFile_fits codeFile_fits exceedingLimits_def)

lemma stripRemovedLines_hugeFile: "stripRemovedLines (hugeFile\<lparr>patchTokenLength := n\<rparr>) = hugeFile\<lparr>patchTokenLength := n\<rparr>"
proof -
  have "CHR ''\<newline>'' \<notin> set (replicate 130000 CHR ''+'')" by simp
  then have sp: "split_on CHR ''\<newline>'' (replicate 130000 CHR ''+'') = [replicate 130000 CHR ''+'']"
    by (rule split_on_no_sep)
  have "replicate 130000 CHR ''+'' = CHR ''+'' # replicate 129999 CHR ''+''"
    by (simp add: replicate_Suc[symmetric] del: replicate_Suc)
  then have st: "\<not> startsWith (replicate 130000 CHR ''+'') ''-''"
    by (simp add: startsWith_def)
  show ?thesis
    unfolding stripRemovedLines_def Let_def
    by (simp add: hugeFile_def sp st)
qed

lemma filterFile_bundle: "filterFile ''dist/bundle.js''"
  by code_simp

lemma reviewGroups_hugeFile: "reviewGroups exampleServices [hugeFile] examplePrompt = [[], []]"
proof -
  have l: "length (examplePatch hugeFile) = 130019"
    by (simp add: examplePatch_def hugeFile_def)
  have f: "filteredWithLength exampleServices [hugeFile] = [hugeFile\<lparr>patchTokenLength := 130019\<rparr>]"
    by (simp add: filteredWithLength_def exampleServices_sel getTokenLength_def l)
       (simp add: hugeFile_def filterFile_bundle)
  have nf: "\<not> withinLimit charTokens examplePatch examplePrompt [hugeFile\<lparr>patchTokenLength := 130019\<rparr>]"
    by (simp add: fits_example examplePatch_def hugeFile_def)
  have e: "withinLimit charTokens examplePatch examplePrompt []"
    by (simp add: fits_example)
  show ?thesis
    by (simp add: reviewGroups_def patchesWithinModelLimit_def patchesOutsideModelLimit_def
      f exampleServices_sel nf e processWithinLimitFiles_Nil processOutsideLimitFiles_def Let_def stripRemovedLines_hugeFile)
qed

section \<open>The claims\<close>

text \<open>
  Claim C1, at the input where it fails. The claim: when the completion calls of every
  strategy raise, \<open>reviewChangesRetry\<close> raises one strategy-exhaustion failure and
  returns no review. Here one file passes the filter and fits the budget, two
  strategies are given, and every call of the completion service throws. The request
  of the first strategy rejects inside the \<open>try\<close> of \<open>reviewChanges\<close>, whose
  \<open>catch\<close> returns a review with a fixed comment; so \<open>reviewChangesRetry\<close> returns
  that review from the first strategy, never tries the second, and never throws
  \<open>All convoBuilders failed.\<close>
\<close>

theorem reviewChangesRetry_completion_down:
  "reviewChangesRetry exampleServices [exampleFile] exampleBuilders =
     Inr \<lparr>comment = ''Error occurred during review process'', structuredComments = []\<rparr>"
  by (simp add: exampleBuilders_def reviewChanges_def reviewGroups_exampleFile Let_def
      reviewFiles_def reviewDiff_def exampleServices_sel failingCompletion_def)

text \<open>
  Claim C2, at the input where it fails. The claim: the files of all groups, together
  with the files left out as too large, are exactly the files that passed the filter.
  Here two files pass the filter and fit the budget one by one, but not together; the
  name of the first ends with a dot, so its extension is the empty string and
  \<open>groupFilesByExtension\<close> puts it in no group. The only group holds the second
  file, and no file is left out as too large: the first file is lost.
\<close>

theorem reviewGroups_loses_file_without_extension:
  "filterFile (PRFile.filename notesFile) \<and> filterFile (PRFile.filename codeFile)
   \<and> reviewGroups exampleServices [notesFile, codeFile] examplePrompt
       = [[codeFile\<lparr>patchTokenLength := 70013\<rparr>]]
   \<and> exceedingLimits (encodeChat exampleServices)
         (patchesOutsideModelLimit exampleServices [notesFile, codeFile] examplePrompt)
         (patchBuilderOf exampleServices) examplePrompt = []"
proof -
  have "PRFile.filename notesFile = ''docs/notes.''" "PRFile.filename codeFile = ''src/b.ts''"
    by (simp_all add: notesFile_def codeFile_def)
  then show ?thesis
    by (simp add: reviewGroups_example exceedingLimits_example filterFile_notes filterFile_code)
qed

text \<open>
  Claim C3, at the input where it fails. The claim: every group of the batch planner
  is non-empty and fits the budget, when every file handed to
  \<open>processWithinLimitFiles\<close> fits alone. Handed no file at all,
  \<open>processWithinLimitFiles\<close> returns one empty group, because the conversation of
  no files fits the budget; \<open>processOutsideLimitFiles\<close> returns no group for an
  empty list. \<open>reviewChanges\<close> hands over an empty list whenever no file fits alone:
  for the one file below, which is too large even without its removed lines, it
  plans two empty groups.
\<close>

theorem processWithinLimitFiles_empty_group:
  "processWithinLimitFiles charTokens [] examplePatch examplePrompt = [[]]
   \<and> processOutsideLimitFiles charTokens [] examplePatch examplePrompt = []
   \<and> reviewGroups exampleServices [hugeFile] examplePrompt = [[], []]"
  by (simp add: processWithinLimitFiles_Nil fits_example processOutsideLimitFiles_def
      reviewGroups_hugeFile)

text \<open>
  Claim C4, as stated, fails: a fenced block whose body is empty or white space gives
  no suggestion. The reply below is one fenced block with an empty body, and the
  parser returns nothing for it, whatever the three pattern functions are.
\<close>

theorem fallbackTextParser_skips_empty_block:
  "replyText [\<lparr>blockLead = '''', blockTag = '''', blockBody = ''''\<rparr>] '''' = ''```\<newline>\<newline>```''
   \<and> (\<forall>mf sp ss. fallbackTextParser mf sp ss ''```\<newline>\<newline>```'' = [])"
  by (simp add: scan_empty_block replyText_def renderBlock_def fallbackTextParser_def
      List.map_filter_def blockSuggestion_None_iff trim_Nil_iff)

text \<open>
  Claim C4, amended. Let a reply be made of fenced blocks, each an opening fence, an
  optional language tag of word characters, a line feed, a body without a fence, a
  line feed and the closing fence; let no text before a block hold a fence or end with
  a backtick, and let the text after the last block hold no fence. Then the parser
  returns one suggestion for every block whose body has a character that is not white
  space, and none for the other blocks: the number of suggestions is the number of
  those blocks, every suggestion has the category \<open>improvement\<close>, and the code of
  the suggestions is, in order, the body of those blocks without its leading white
  space, fenced again under the tag of the block, or under \<open>js\<close> when it has none.
\<close>

theorem fallbackTextParser_one_per_nonblank_block:
  assumes "list_all wellFenced blocks" and "\<not> hasFence trailing"
  shows "length (fallbackTextParser mf sp ss (replyText blocks trailing))
           = length (filter (\<lambda>b. nonBlank (blockBody b)) blocks)
   \<and> (\<forall>s \<in> set (fallbackTextParser mf sp ss (replyText blocks trailing)).
          type s = ''improvement'')
   \<and> map code (fallbackTextParser mf sp ss (replyText blocks trailing))
       = map (\<lambda>b. ''```'' @ (if blockTag b = [] then ''js'' else blockTag b) @ ''\<newline>''
                    @ trimStart (blockBody b) @ ''\<newline>'' @ ''\<newline>```'')
           (filter (\<lambda>b. nonBlank (blockBody b)) blocks)"
proof -
  let ?reply = "replyText blocks trailing"
  let ?ms = "scanCodeBlocks 0 ?reply"
  let ?pm = "\<lambda>m. (matchLanguage m, matchCode m)"
  let ?pb = "\<lambda>b. (if blockTag b = [] then None else Some (blockTag b),
                  trimStart (blockBody b @ ''\<newline>''))"
  let ?g = "\<lambda>(l, c). ''```'' @ (case l of None \<Rightarrow> ''js'' | Some l \<Rightarrow> l) @ ''\<newline>''
              @ c @ ''\<newline>```''"
  let ?h = "\<lambda>(l :: string option, c). trim c \<noteq> []"
  have scan: "map ?pm ?ms = map ?pb blocks"
    by (rule scanCodeBlocks_reply[OF assms])
  have codes: "map code (fallbackTextParser mf sp ss ?reply)
      = map ?g (filter ?h (map ?pm ?ms))"
    unfolding fallbackTextParser_def map_filter_blocks filter_map
    by (simp add: comp_def)
  have keep: "filter ?h (map ?pb blocks) = map ?pb (filter (\<lambda>b. nonBlank (blockBody b)) blocks)"
    unfolding filter_map by (simp add: comp_def trim_body_line)
  have third: "map code (fallbackTextParser mf sp ss ?reply)
       = map (\<lambda>b. ''```'' @ (if blockTag b = [] then ''js'' else blockTag b) @ ''\<newline>''
                    @ trimStart (blockBody b) @ ''\<newline>'' @ ''\<newline>```'')
           (filter (\<lambda>b. nonBlank (blockBody b)) blocks)"
    unfolding codes scan keep by (simp add: trimStart_body_line)
  from arg_cong[OF third, of length]
  have first: "length (fallbackTextParser mf sp ss ?reply)
           = length (filter (\<lambda>b. nonBlank (blockBody b)) blocks)"
    by simp
  have second: "\<forall>s \<in> set (fallbackTextParser mf sp ss ?reply). type s = ''improvement''"
    by (auto simp: fallbackTextParser_def List.map_filter_def dest: blockSuggestion_Some)
  from first second third show ?thesis by (intro conjI)
qed

theorem fallbackTextParser_one_per_nonblank_block_witness:
  "replyText exampleBlocks ''\<newline>Done.''
     = ''Use a constant, path: src/a.go\<newline>```go\<newline>const limit = 10\<newline>```\<newline>Nothing here:\<newline>```\<newline>  \<newline>```\<newline>Also `nil`:\<newline>```\<newline>  return nil\<newline>```\<newline>Done.''
   \<and> (\<forall>mf sp ss.
        map code (fallbackTextParser mf sp ss (replyText exampleBlocks ''\<newline>Done.''))
          = [''```go\<newline>const limit = 10\<newline>\<newline>```'', ''```js\<newline>return nil\<newline>\<newline>```'']
      \<and> list_all (\<lambda>s. type s = ''improvement'')
            (fallbackTextParser mf sp ss (replyText exampleBlocks ''\<newline>Done.'')))"
proof -
  have r: "replyText exampleBlocks ''\<newline>Done.''
     = ''Use a constant, path: src/a.go\<newline>```go\<newline>const limit = 10\<newline>```\<newline>Nothing here:\<newline>```\<newline>  \<newline>```\<newline>Also `nil`:\<newline>```\<newline>  return nil\<newline>```\<newline>Done.''"
    by (simp add: replyText_def exampleBlocks_def renderBlock_def)
  have w: "list_all wellFenced exampleBlocks"
    by code_simp
  have t: "\<not> hasFence ''\<newline>Done.''"
    by simp
  have f: "filter (\<lambda>b. nonBlank (blockBody b)) exampleBlocks
      = [\<lparr>blockLead = ''Use a constant, path: src/a.go\<newline>'', blockTag = ''go'',
          blockBody = ''const limit = 10''\<rparr>,
         \<lparr>blockLead = ''\<newline>Also `nil`:\<newline>'', blockTag = '''', blockBody = ''  return nil''\<rparr>]"
    by code_simp
  have s: "trimStart ''const limit = 10'' = ''const limit = 10''"
    "trimStart ''  return nil'' = ''return nil''"
    by code_simp+
  have "map code (fallbackTextParser mf sp ss (replyText exampleBlocks ''\<newline>Done.''))
          = [''```go\<newline>const limit = 10\<newline>\<newline>```'', ''```js\<newline>return nil\<newline>\<newline>```'']
      \<and> list_all (\<lambda>s. type s = ''improvement'')
            (fallbackTextParser mf sp ss (replyText exampleBlocks ''\<newline>Done.''))" for mf sp ss
    using fallbackTextParser_one_per_nonblank_block[OF w t, of mf sp ss]
    unfolding f by (simp add: s list_all_iff)
  with r show ?thesis by blast
qed




text \<open>
  Claim C6. Let the file have contents, let the completion service propose a fix with
  a line range that starts at line 1 or later, and let the text of the lines of the
  file in that range, trimmed, be the proposed replacement, trimmed. Then
  \<open>generateInlineComments\<close> returns \<open>null\<close>.
\<close>

theorem generateInlineComments_suppresses_no_op:
  assumes "current_contents f = Some contents"
    and "codeFix svc sg f = Some proposed"
    and "1 \<le> line_start proposed" and "0 \<le> line_end proposed"
    and "trim (linesInRange contents (line_start proposed) (line_end proposed))
           = trim (correction proposed)"
  shows "generateInlineComments svc sg f = None"
  using assms isCodeSuggestionNew_noop[OF assms(3,4,5)]
  by (simp add: generateInlineComments_def)

theorem generateInlineComments_suppresses_no_op_witness:
  "generateInlineComments exampleInline suggestionA sourceFile = None"
proof -
  have c: "current_contents sourceFile = Some ''def f():\<newline>    return 1\<newline>''"
    by (simp add: sourceFile_def)
  have p: "codeFix exampleInline suggestionA sourceFile =
     Some \<lparr>file' = ''src/a.py'', line_start = 2, line_end = 2,
            correction = ''    return 1'', comment = JStr ''keep it''\<rparr>"
    by code_simp
  have e: "trim (linesInRange ''def f():\<newline>    return 1\<newline>'' 2 2) = trim ''    return 1''"
    by code_simp
  show ?thesis
    by (rule generateInlineComments_suppresses_no_op[OF c p]) (simp_all add: e)
qed

text \<open>
  Claim C7, at the input where it fails. The claim: every link that is not the
  placeholder has a URL of at most 2048 characters. For a body of 3000 letters and no
  code block the first URL is over the cap, the second URL is built without the code
  block and is the same text, and the function returns it: a URL of 3047 characters.
\<close>

theorem generateGithubIssueUrl_over_cap:
  "generateGithubIssueUrl ''o'' ''r'' ''t'' (replicate 3000 CHR ''a'') None
     = ''[Create Issue]('' @ (''https://github.com/o/r/issues/new?title=t&body=''
          @ replicate 3000 CHR ''a'') @ '')''
   \<and> length (''https://github.com/o/r/issues/new?title=t&body='' @ replicate 3000 CHR ''a'')
       = 3047"
proof -
  have b: "encodeURIComponent (replicate 3000 CHR ''a'') = replicate 3000 CHR ''a''"
    by (rule encodeURIComponent_unreserved) (simp add: unreserved_a)
  have t: "encodeURIComponent ''t'' = ''t''"
    by (rule encodeURIComponent_unreserved) (simp add: unreserved_t)
  show ?thesis
    by (simp add: generateGithubIssueUrl_def repo_o repo_r b t Let_def)
qed

theorem generateGithubIssueUrl_over_cap_witness:
  "length (generateGithubIssueUrl ''o'' ''r'' ''t'' (replicate 3000 CHR ''a'') None) = 3063"
  using generateGithubIssueUrl_over_cap by simp




text \<open>
  Claim C9. Whatever the identity function is, the list \<open>dedupSuggestions\<close> returns
  has no two elements of equal identity; for every suggestion of the input, the result
  holds exactly one element of that identity, and it is the last one of the input with
  that identity (a later suggestion overwrites an earlier one); and deduplicating twice
  gives the same list as deduplicating once.
\<close>

theorem dedupSuggestions_unique_last_idempotent:
  "distinct (map identity (dedupSuggestions identity sugs)) \<and>
   (\<forall>s \<in> set sugs.
      filter (\<lambda>t. identity t = identity s) (dedupSuggestions identity sugs) =
      [last (filter (\<lambda>t. identity t = identity s) sugs)]) \<and>
   dedupSuggestions identity (dedupSuggestions identity sugs) =
     dedupSuggestions identity sugs"
  using dedup_distinct[of identity sugs] dedup_last_wins[of _ sugs identity]
    dedup_idem[of identity sugs]
  by blast

theorem dedupSuggestions_unique_last_idempotent_witness:
  "filter (\<lambda>t. exampleIdentity t = exampleIdentity suggestionA)
     (dedupSuggestions exampleIdentity [suggestionA, suggestionB, suggestionA']) = [suggestionA'] \<and>
   distinct (map exampleIdentity
     (dedupSuggestions exampleIdentity [suggestionA, suggestionB, suggestionA']))"
  using dedupSuggestions_unique_last_idempotent
    [of exampleIdentity "[suggestionA, suggestionB, suggestionA']"]
  by (simp add: exampleIdentity_def suggestionA_def suggestionB_def suggestionA'_def)



end
